theory Spec2Isabelle
  imports Main "HOL-Library.Multiset"
begin

section \<open>Tiles, the tile tables and the premium squares\<close>

text \<open>
  The session engine is the class \<open>ScrabbleGame\<close> of the server part of the source.
  A tile is the object \<open>{letter, value, id}\<close>; the field names carry the prefix
  \<open>tile_\<close> because \<open>id\<close> and \<open>value\<close> are taken in Isabelle.
\<close>

record tile =
  letter :: string
  tile_value :: int
  tile_id :: string

definition TILE_DISTRIBUTION :: "(string \<times> nat) list" where
  "TILE_DISTRIBUTION =
    [(''A'', 9), (''B'', 2), (''C'', 2), (''D'', 4), (''E'', 12), (''F'', 2), (''G'', 3), (''H'', 2),
     (''I'', 9), (''J'', 1), (''K'', 1), (''L'', 4), (''M'', 2), (''N'', 6), (''O'', 8), (''P'', 2),
     (''Q'', 1), (''R'', 6), (''S'', 4), (''T'', 6), (''U'', 4), (''V'', 2), (''W'', 2), (''X'', 1),
     (''Y'', 2), (''Z'', 1), (''_'', 2)]"

definition TILE_VALUES :: "(string \<times> int) list" where
  "TILE_VALUES =
    [(''A'', 1), (''B'', 3), (''C'', 3), (''D'', 2), (''E'', 1), (''F'', 4), (''G'', 2), (''H'', 4),
     (''I'', 1), (''J'', 8), (''K'', 5), (''L'', 1), (''M'', 3), (''N'', 1), (''O'', 1), (''P'', 3),
     (''Q'', 10), (''R'', 1), (''S'', 1), (''T'', 1), (''U'', 1), (''V'', 4), (''W'', 4), (''X'', 8),
     (''Y'', 4), (''Z'', 10), (''_'', 0)]"

text \<open>\<open>TILE_VALUES[letter]\<close>; every letter of the distribution has an entry.\<close>

definition value_of :: "string \<Rightarrow> int" where
  "value_of l = (case map_of TILE_VALUES l of Some v \<Rightarrow> v | None \<Rightarrow> 0)"

datatype premium = TW | DW | TL | DL

text \<open>The object \<open>PREMIUM_SQUARES\<close>, in the order of its keys.\<close>

definition PREMIUM_SQUARES :: "(premium \<times> (int \<times> int) list) list" where
  "PREMIUM_SQUARES =
    [(TW, [(0, 0), (0, 7), (0, 14), (7, 0), (7, 14), (14, 0), (14, 7), (14, 14)]),
     (DW, [(1, 1), (2, 2), (3, 3), (4, 4), (1, 13), (2, 12), (3, 11), (4, 10),
           (13, 1), (12, 2), (11, 3), (10, 4), (13, 13), (12, 12), (11, 11), (10, 10), (7, 7)]),
     (TL, [(1, 5), (1, 9), (5, 1), (5, 5), (5, 9), (5, 13), (9, 1), (9, 5), (9, 9), (9, 13),
           (13, 5), (13, 9)]),
     (DL, [(0, 3), (0, 11), (2, 6), (2, 8), (3, 0), (3, 7), (3, 14), (6, 2), (6, 6), (6, 8),
           (6, 12), (7, 3), (7, 11), (8, 2), (8, 6), (8, 8), (8, 12), (11, 0), (11, 7), (11, 14),
           (12, 6), (12, 8), (14, 3), (14, 11)])]"

definition positions_of :: "premium \<Rightarrow> (int \<times> int) list" where
  "positions_of k = (case map_of PREMIUM_SQUARES k of Some ps \<Rightarrow> ps | None \<Rightarrow> [])"

section \<open>The board\<close>

text \<open>
  \<open>this.board\<close> is an array of 15 row arrays, each filled with 15 \<open>null\<close>s. No row is
  ever added or removed, and no cell is ever reset, so the board is given by the tiles
  written so far: \<open>b r c = Some t\<close> when \<open>board[r][c] = t\<close> has been executed.
  Reading follows JavaScript:
  \<^item> \<open>board[r]\<close> is \<open>undefined\<close> for a row index outside \<open>0..14\<close>, and indexing it
    throws a TypeError;
  \<^item> \<open>board[r][c]\<close> in an existing row is the tile written there, else \<open>null\<close> for a
    column in \<open>0..14\<close>, else \<open>undefined\<close> (beyond the array, or a negative index).
  A thrown TypeError is the value \<open>None\<close> of the functions below.
\<close>

type_synonym board = "int \<Rightarrow> int \<Rightarrow> tile option"

datatype cell = Null | Undefined | Tile tile

definition empty_board :: board where
  "empty_board = (\<lambda>r c. None)"

definition row_exists :: "int \<Rightarrow> bool" where
  "row_exists r = (0 \<le> r \<and> r < 15)"

definition get_cell :: "board \<Rightarrow> int \<Rightarrow> int \<Rightarrow> cell option" where
  "get_cell b r c =
    (if row_exists r
     then Some (case b r c of
                  Some t \<Rightarrow> Tile t
                | None \<Rightarrow> if 0 \<le> c \<and> c < 15 then Null else Undefined)
     else None)"

text \<open>\<open>board[r][c] = t\<close>; a JavaScript array accepts any column index.\<close>

definition set_cell :: "board \<Rightarrow> int \<Rightarrow> int \<Rightarrow> tile \<Rightarrow> board option" where
  "set_cell b r c t = (if row_exists r then Some (b(r := (b r)(c \<mapsto> t))) else None)"

text \<open>
  \<open>getPremiumSquare(row, col)\<close>: \<open>null\<close> (here \<open>Some None\<close>) for a cell that is not
  \<open>null\<close>, else the first key of \<open>PREMIUM_SQUARES\<close> that lists the coordinate.
\<close>

fun find_premium :: "(premium \<times> (int \<times> int) list) list \<Rightarrow> int \<Rightarrow> int \<Rightarrow> premium option" where
  "find_premium [] row col = None"
| "find_premium ((key, positions) # rest) row col =
    (if (row, col) \<in> set positions then Some key else find_premium rest row col)"

definition getPremiumSquare :: "board \<Rightarrow> int \<Rightarrow> int \<Rightarrow> premium option option" where
  "getPremiumSquare b row col =
    (case get_cell b row col of
       None \<Rightarrow> None
     | Some Null \<Rightarrow> Some (find_premium PREMIUM_SQUARES row col)
     | Some _ \<Rightarrow> Some None)"

section \<open>The premium table\<close>

text \<open>
  Claim C3, as the code has it. The table lists 8 triple-word, 17 double-word,
  12 triple-letter and 24 double-letter coordinates, no coordinate twice. The centre
  (7,7) is the seventeenth entry of the double-word list, and the premium kind of
  (7,7) on the empty board is the double word.
\<close>

theorem premium_table_counts:
  "length (positions_of TW) = 8 \<and> length (positions_of DW) = 17 \<and>
   length (positions_of TL) = 12 \<and> length (positions_of DL) = 24 \<and>
   distinct (positions_of TW @ positions_of DW @ positions_of TL @ positions_of DL) \<and>
   positions_of DW ! 16 = (7, 7) \<and>
   getPremiumSquare empty_board 7 7 = Some (Some DW)"
  by (simp add: positions_of_def PREMIUM_SQUARES_def getPremiumSquare_def get_cell_def
      row_exists_def empty_board_def)

text \<open>
  Claim C3 as written says that the centre is not in the double-word table and that
  its premium kind on an empty board is not the double word; the code returns it.
\<close>

theorem center_is_double_word:
  "(7, 7) \<in> set (positions_of DW) \<and> getPremiumSquare empty_board 7 7 = Some (Some DW)"
  by (simp add: positions_of_def PREMIUM_SQUARES_def getPremiumSquare_def get_cell_def
      row_exists_def empty_board_def)

section \<open>Players and the session\<close>

record placement =
  row :: int
  col :: int
  tile :: tile

record player =
  player_id :: string
  name :: string
  score :: int
  tiles :: "tile list"
  isHost :: bool

text \<open>\<open>hostId\<close> is \<open>null\<close> (here \<open>None\<close>) until the first player joins.\<close>

record game =
  roomId :: string
  players :: "player list"
  currentPlayerIndex :: nat
  board :: board
  tileBag :: "tile list"
  gameStarted :: bool
  firstMoveMade :: bool
  hostId :: "string option"

text \<open>
  What a method hands back: \<open>{success: false, error}\<close>, \<open>{success: true}\<close>,
  \<open>{success: true, score}\<close>, or a TypeError thrown on the way.
\<close>

datatype result = TypeError | Failure string | Success | SuccessScore int

subsection \<open>The bag\<close>

text \<open>
  \<open>shuffle(array)\<close>: the Fisher-Yates loop, \<open>i\<close> from \<open>length - 1\<close> down to 1.
  \<open>Math.floor(Math.random() * (i + 1))\<close> is some index in \<open>0..i\<close>; the oracle
  \<open>pick\<close> supplies the draw made at loop index \<open>i\<close>, reduced into that range.
\<close>

fun shuffle_loop :: "(nat \<Rightarrow> nat) \<Rightarrow> nat \<Rightarrow> 'a list \<Rightarrow> 'a list" where
  "shuffle_loop pick 0 shuffled = shuffled"
| "shuffle_loop pick (Suc k) shuffled =
    (let i = Suc k;
         j = pick i mod (i + 1);
         temp = shuffled ! i
     in shuffle_loop pick k (shuffled[i := shuffled ! j, j := temp]))"

definition shuffle :: "(nat \<Rightarrow> nat) \<Rightarrow> 'a list \<Rightarrow> 'a list" where
  "shuffle pick array = shuffle_loop pick (length array - 1) array"

text \<open>Decimal text of a loop counter, as string concatenation prints it.\<close>

fun show_nat :: "nat \<Rightarrow> string" where
  "show_nat n =
    (if n < 10 then [''0123456789'' ! n]
     else show_nat (n div 10) @ [''0123456789'' ! (n mod 10)])"

declare show_nat.simps [simp del]

text \<open>
  \<open>initializeTileBag()\<close>: for every letter of \<open>TILE_DISTRIBUTION\<close>, in the order of
  its keys, \<open>count\<close> tiles are pushed. The oracle \<open>rnd\<close> gives the text of the
  \<open>Math.random()\<close> value drawn for tile \<open>i\<close> of a letter.
\<close>

definition mint :: "(string \<Rightarrow> nat \<Rightarrow> string) \<Rightarrow> string \<Rightarrow> nat \<Rightarrow> tile" where
  "mint rnd l i =
     \<lparr>letter = l, tile_value = value_of l, tile_id = l @ ''-'' @ show_nat i @ ''-'' @ rnd l i\<rparr>"

definition mint_bag :: "(string \<Rightarrow> nat \<Rightarrow> string) \<Rightarrow> tile list" where
  "mint_bag rnd =
     foldl (\<lambda>bag (l, cnt). foldl (\<lambda>bag i. bag @ [mint rnd l i]) bag [0..<cnt]) [] TILE_DISTRIBUTION"

definition initializeTileBag :: "(string \<Rightarrow> nat \<Rightarrow> string) \<Rightarrow> (nat \<Rightarrow> nat) \<Rightarrow> tile list" where
  "initializeTileBag rnd pick = shuffle pick (mint_bag rnd)"

text \<open>The constructor.\<close>

definition new_game :: "string \<Rightarrow> (string \<Rightarrow> nat \<Rightarrow> string) \<Rightarrow> (nat \<Rightarrow> nat) \<Rightarrow> game" where
  "new_game rid rnd pick =
     \<lparr>roomId = rid, players = [], currentPlayerIndex = 0, board = empty_board,
      tileBag = initializeTileBag rnd pick, gameStarted = False, firstMoveMade = False,
      hostId = None\<rparr>"

subsection \<open>Joining, leaving, starting\<close>

fun findIndex :: "('a \<Rightarrow> bool) \<Rightarrow> 'a list \<Rightarrow> nat option" where
  "findIndex P [] = None"
| "findIndex P (x # xs) = (if P x then Some 0 else map_option Suc (findIndex P xs))"

text \<open>\<open>addPlayer(socketId, name)\<close>; an empty name is falsy and gets the default.\<close>

definition addPlayer :: "game \<Rightarrow> string \<Rightarrow> string \<Rightarrow> bool \<times> game" where
  "addPlayer s socketId nm =
    (if length (players s) \<ge> 4 then (False, s)
     else
       let p = \<lparr>player_id = socketId,
                name = (if nm = [] then ''Player '' @ show_nat (length (players s) + 1) else nm),
                score = 0, tiles = [], isHost = (length (players s) = 0)\<rparr>;
           s1 = (if isHost p then s\<lparr>hostId := Some socketId\<rparr> else s)
       in (True, s1\<lparr>players := players s1 @ [p]\<rparr>))"

definition removePlayer :: "game \<Rightarrow> string \<Rightarrow> game" where
  "removePlayer s socketId =
    (case findIndex (\<lambda>p. player_id p = socketId) (players s) of
       None \<Rightarrow> s
     | Some index \<Rightarrow>
         let removedPlayer = players s ! index;
             s1 = s\<lparr>tileBag := tileBag s @ tiles removedPlayer\<rparr>;
             s2 = s1\<lparr>players := take index (players s1) @ drop (Suc index) (players s1)\<rparr>;
             s3 = (if isHost removedPlayer \<and> length (players s2) > 0
                   then s2\<lparr>players := (players s2)[0 := (players s2 ! 0)\<lparr>isHost := True\<rparr>],
                           hostId := Some (player_id (players s2 ! 0))\<rparr>
                   else s2)
         in if currentPlayerIndex s3 \<ge> length (players s3)
            then s3\<lparr>currentPlayerIndex := 0\<rparr> else s3)"

text \<open>
  \<open>dealTiles(player, count)\<close>, the player given by its index in \<open>players\<close>: each
  round pops the last tile of the bag and pushes it on the rack.
\<close>

fun deal_loop :: "nat \<Rightarrow> tile list \<Rightarrow> tile list \<Rightarrow> tile list \<times> tile list" where
  "deal_loop 0 rack bag = (rack, bag)"
| "deal_loop (Suc n) rack bag = deal_loop n (rack @ [last bag]) (butlast bag)"

definition dealTiles :: "game \<Rightarrow> nat \<Rightarrow> nat \<Rightarrow> game" where
  "dealTiles s k cnt =
    (let tilesToDeal = min cnt (length (tileBag s));
         dealt = deal_loop tilesToDeal (tiles (players s ! k)) (tileBag s)
     in s\<lparr>players := (players s)[k := (players s ! k)\<lparr>tiles := fst dealt\<rparr>],
          tileBag := snd dealt\<rparr>)"

definition startGame :: "game \<Rightarrow> bool \<times> game" where
  "startGame s =
    (if gameStarted s \<or> length (players s) < 2 then (False, s)
     else (True, foldl (\<lambda>s' i. dealTiles s' i 7) (s\<lparr>gameStarted := True\<rparr>)
                   [0..<length (players s)]))"

text \<open>\<open>getCurrentPlayer()\<close>: \<open>undefined\<close> (here \<open>None\<close>) beyond the player list.\<close>

definition getCurrentPlayer :: "game \<Rightarrow> player option" where
  "getCurrentPlayer s =
    (if currentPlayerIndex s < length (players s)
     then Some (players s ! currentPlayerIndex s) else None)"

text \<open>\<open>nextTurn()\<close>; every caller has found a player before, so the list is not empty.\<close>

definition nextTurn :: "game \<Rightarrow> game" where
  "nextTurn s = s\<lparr>currentPlayerIndex := (currentPlayerIndex s + 1) mod length (players s)\<rparr>"

text \<open>
  The guard \<open>!player || this.getCurrentPlayer().id !== playerId\<close> shared by the three
  turn operations: the index of the found player, a refusal, or the TypeError of
  reading \<open>.id\<close> of \<open>undefined\<close>.
\<close>

datatype turn_check = Mover nat | NotYourTurn | Threw

definition check_turn :: "game \<Rightarrow> string \<Rightarrow> turn_check" where
  "check_turn s playerId =
    (case findIndex (\<lambda>p. player_id p = playerId) (players s) of
       None \<Rightarrow> NotYourTurn
     | Some k \<Rightarrow>
        (case getCurrentPlayer s of
           None \<Rightarrow> Threw
         | Some cur \<Rightarrow> if player_id cur \<noteq> playerId then NotYourTurn else Mover k))"

definition passTurn :: "game \<Rightarrow> string \<Rightarrow> result \<times> game" where
  "passTurn s playerId =
    (case check_turn s playerId of
       NotYourTurn \<Rightarrow> (Failure ''Not your turn'', s)
     | Threw \<Rightarrow> (TypeError, s)
     | Mover k \<Rightarrow> (Success, nextTurn s))"

text \<open>\<open>exchangeTiles(playerId, tileIds)\<close>, with the oracle of its shuffle.\<close>

definition exchangeTiles :: "game \<Rightarrow> (nat \<Rightarrow> nat) \<Rightarrow> string \<Rightarrow> string list \<Rightarrow> result \<times> game" where
  "exchangeTiles s pick playerId tileIds =
    (case check_turn s playerId of
       NotYourTurn \<Rightarrow> (Failure ''Not your turn'', s)
     | Threw \<Rightarrow> (TypeError, s)
     | Mover k \<Rightarrow>
        if length (tileBag s) < length tileIds then (Failure ''Not enough tiles in bag'', s)
        else
          let rack = tiles (players s ! k);
              exchangedTiles = filter (\<lambda>t. tile_id t \<in> set tileIds) rack;
              s1 = s\<lparr>players := (players s)[k := (players s ! k)
                        \<lparr>tiles := filter (\<lambda>t. tile_id t \<notin> set tileIds) rack\<rparr>]\<rparr>;
              s2 = s1\<lparr>tileBag := tileBag s1 @ exchangedTiles\<rparr>;
              s3 = s2\<lparr>tileBag := shuffle pick (tileBag s2)\<rparr>;
              s4 = dealTiles s3 k (length exchangedTiles)
          in (Success, nextTurn s4))"

subsection \<open>The public view\<close>

record public_player =
  pp_id :: string
  pp_name :: string
  pp_score :: int
  tileCount :: nat
  pp_isHost :: bool

record game_state =
  gs_roomId :: string
  gs_players :: "public_player list"
  gs_currentPlayerIndex :: nat
  gs_board :: board
  gs_gameStarted :: bool
  tilesRemaining :: nat
  gs_hostId :: "string option"

definition getGameState :: "game \<Rightarrow> game_state" where
  "getGameState s =
    \<lparr>gs_roomId = roomId s,
     gs_players = map (\<lambda>p. \<lparr>pp_id = player_id p, pp_name = name p, pp_score = score p,
                             tileCount = length (tiles p), pp_isHost = isHost p\<rparr>) (players s),
     gs_currentPlayerIndex = currentPlayerIndex s,
     gs_board = board s,
     gs_gameStarted = gameStarted s,
     tilesRemaining = length (tileBag s),
     gs_hostId = hostId s\<rparr>"

section \<open>Move validation and scoring\<close>

datatype validation = Valid | Invalid string

text \<open>
  The two contiguity loops of \<open>validateMove\<close> are one loop over the line, reading
  the cell at index \<open>i\<close> through \<open>cellAt\<close>: \<open>Some False\<close> is the gap found,
  \<open>None\<close> the TypeError of indexing a row that does not exist.
\<close>

function scan_line :: "(int \<Rightarrow> cell option) \<Rightarrow> (int \<Rightarrow> bool) \<Rightarrow> int \<Rightarrow> int \<Rightarrow> bool option" where
  "scan_line cellAt hasNewTile i hi =
    (if i \<le> hi
     then (case cellAt i of
             None \<Rightarrow> None
           | Some c \<Rightarrow>
               if \<not> hasNewTile i \<and> \<not> (c \<noteq> Null) then Some False
               else scan_line cellAt hasNewTile (i + 1) hi)
     else Some True)"
  by pat_completeness auto
termination
  by (relation "measure (\<lambda>(cellAt, hasNewTile, i, hi). nat (hi + 1 - i))") auto

declare scan_line.simps [simp del]

text \<open>The neighbour test of the connection check; the bounds are tested before the read.\<close>

definition occupied_neighbor :: "board \<Rightarrow> int \<times> int \<Rightarrow> bool" where
  "occupied_neighbor b n =
    (case n of (r, c) \<Rightarrow>
       r \<ge> 0 \<and> r < 15 \<and> c \<ge> 0 \<and> c < 15 \<and>
       (case get_cell b r c of Some x \<Rightarrow> x \<noteq> Null | None \<Rightarrow> False))"

definition neighbors :: "placement \<Rightarrow> (int \<times> int) list" where
  "neighbors pt = [(row pt - 1, col pt), (row pt + 1, col pt), (row pt, col pt - 1), (row pt, col pt + 1)]"

definition connected :: "board \<Rightarrow> placement list \<Rightarrow> bool" where
  "connected b playedTiles = list_ex (\<lambda>pt. list_ex (occupied_neighbor b) (neighbors pt)) playedTiles"

definition check_contiguous :: "board \<Rightarrow> placement list \<Rightarrow> bool option" where
  "check_contiguous b playedTiles =
    (if card (set (map row playedTiles)) = 1
     then let r = row (hd playedTiles);
              sortedCols = sort (map col playedTiles)
          in scan_line (\<lambda>i. get_cell b r i) (\<lambda>i. list_ex (\<lambda>pt. col pt = i) playedTiles)
               (hd sortedCols) (last sortedCols)
     else let c = col (hd playedTiles);
              sortedRows = sort (map row playedTiles)
          in scan_line (\<lambda>i. get_cell b i c) (\<lambda>i. list_ex (\<lambda>pt. row pt = i) playedTiles)
               (hd sortedRows) (last sortedRows))"

definition validateMove :: "game \<Rightarrow> placement list \<Rightarrow> validation option" where
  "validateMove s playedTiles =
    (if length playedTiles = 0 then Some (Invalid ''No tiles played'')
     else if \<not> firstMoveMade s \<and> \<not> list_ex (\<lambda>pt. row pt = 7 \<and> col pt = 7) playedTiles
       then Some (Invalid ''First word must cross the center square'')
     else if card (set (map row playedTiles)) > 1 \<and> card (set (map col playedTiles)) > 1
       then Some (Invalid ''Tiles must be in a single row or column'')
     else (case check_contiguous (board s) playedTiles of
             None \<Rightarrow> None
           | Some False \<Rightarrow> Some (Invalid ''Tiles must be contiguous'')
           | Some True \<Rightarrow>
               if firstMoveMade s \<and> \<not> connected (board s) playedTiles
               then Some (Invalid ''New tiles must connect to existing tiles'')
               else Some Valid))"

text \<open>\<open>calculateScore\<close>: the loop over the placed tiles, then the loop over the line.\<close>

fun score_tiles :: "board \<Rightarrow> placement list \<Rightarrow> int \<Rightarrow> int \<Rightarrow> (int \<times> int) option" where
  "score_tiles b [] totalScore wordMultiplier = Some (totalScore, wordMultiplier)"
| "score_tiles b (pt # pts) totalScore wordMultiplier =
    (case getPremiumSquare b (row pt) (col pt) of
       None \<Rightarrow> None
     | Some premiumKey \<Rightarrow>
         let tileScore = tile_value (tile pt);
             tileScore = (if premiumKey = Some DL then tileScore * 2 else tileScore);
             tileScore = (if premiumKey = Some TL then tileScore * 3 else tileScore);
             wordMultiplier = (if premiumKey = Some DW then wordMultiplier * 2 else wordMultiplier);
             wordMultiplier = (if premiumKey = Some TW then wordMultiplier * 3 else wordMultiplier)
         in score_tiles b pts (totalScore + tileScore) wordMultiplier)"

text \<open>
  The line loop adds \<open>board[row][col].value\<close> for a cell that is not \<open>null\<close> and not
  newly covered; reading \<open>.value\<close> of \<open>undefined\<close> throws.
\<close>

function bonus_line :: "(int \<Rightarrow> cell option) \<Rightarrow> (int \<Rightarrow> bool) \<Rightarrow> int \<Rightarrow> int \<Rightarrow> int \<Rightarrow> int option" where
  "bonus_line cellAt hasNewTile i hi totalScore =
    (if i \<le> hi
     then (case cellAt i of
             None \<Rightarrow> None
           | Some c \<Rightarrow>
               if c \<noteq> Null \<and> \<not> hasNewTile i
               then (case c of
                       Tile t \<Rightarrow> bonus_line cellAt hasNewTile (i + 1) hi (totalScore + tile_value t)
                     | _ \<Rightarrow> None)
               else bonus_line cellAt hasNewTile (i + 1) hi totalScore)
     else Some totalScore)"
  by pat_completeness auto
termination
  by (relation "measure (\<lambda>(cellAt, hasNewTile, i, hi, totalScore). nat (hi + 1 - i))") auto

declare bonus_line.simps [simp del]

definition line_bonus :: "board \<Rightarrow> placement list \<Rightarrow> int \<Rightarrow> int option" where
  "line_bonus b playedTiles totalScore =
    (if length playedTiles > 0
     then (if card (set (map row playedTiles)) = 1
           then let r = row (hd playedTiles);
                    sortedCols = sort (map col playedTiles)
                in bonus_line (\<lambda>i. get_cell b r i) (\<lambda>i. list_ex (\<lambda>pt. col pt = i) playedTiles)
                     (hd sortedCols) (last sortedCols) totalScore
           else let c = col (hd playedTiles);
                    sortedRows = sort (map row playedTiles)
                in bonus_line (\<lambda>i. get_cell b i c) (\<lambda>i. list_ex (\<lambda>pt. row pt = i) playedTiles)
                     (hd sortedRows) (last sortedRows) totalScore)
     else Some totalScore)"

definition calculateScore :: "board \<Rightarrow> placement list \<Rightarrow> int option" where
  "calculateScore b playedTiles =
    (case score_tiles b playedTiles 0 1 of
       None \<Rightarrow> None
     | Some (tot, wordMultiplier) \<Rightarrow>
        (case line_bonus b playedTiles tot of
           None \<Rightarrow> None
         | Some totalScore \<Rightarrow>
             Some (totalScore * wordMultiplier + (if length playedTiles = 7 then 50 else 0))))"

text \<open>
  The loop of \<open>playMove\<close> that writes the tiles: the board as far as written, and
  whether the loop ran to its end (a row that does not exist throws).
\<close>

fun placeTiles :: "board \<Rightarrow> placement list \<Rightarrow> bool \<times> board" where
  "placeTiles b [] = (True, b)"
| "placeTiles b (pt # pts) =
    (case set_cell b (row pt) (col pt) (tile pt) of
       None \<Rightarrow> (False, b)
     | Some b' \<Rightarrow> placeTiles b' pts)"

text \<open>What \<open>playMove\<close> does once the score is known and the tiles are written.\<close>

definition commit_move :: "game \<Rightarrow> nat \<Rightarrow> placement list \<Rightarrow> int \<Rightarrow> board \<Rightarrow> game" where
  "commit_move s k playedTiles sc b' =
    (let s1 = s\<lparr>board := b'\<rparr>;
         p1 = (players s1 ! k)\<lparr>score := score (players s1 ! k) + sc\<rparr>;
         playedTileIds = set (map (\<lambda>pt. tile_id (tile pt)) playedTiles);
         p2 = p1\<lparr>tiles := filter (\<lambda>t. tile_id t \<notin> playedTileIds) (tiles p1)\<rparr>;
         s2 = s1\<lparr>players := (players s1)[k := p2]\<rparr>;
         s3 = dealTiles s2 k (length playedTiles);
         s4 = s3\<lparr>firstMoveMade := True\<rparr>
     in nextTurn s4)"

definition playMove :: "game \<Rightarrow> string \<Rightarrow> placement list \<Rightarrow> result \<times> game" where
  "playMove s playerId playedTiles =
    (case check_turn s playerId of
       NotYourTurn \<Rightarrow> (Failure ''Not your turn'', s)
     | Threw \<Rightarrow> (TypeError, s)
     | Mover k \<Rightarrow>
        (case validateMove s playedTiles of
           None \<Rightarrow> (TypeError, s)
         | Some (Invalid e) \<Rightarrow> (Failure e, s)
         | Some Valid \<Rightarrow>
            (case calculateScore (board s) playedTiles of
               None \<Rightarrow> (TypeError, s)
             | Some sc \<Rightarrow>
                (case placeTiles (board s) playedTiles of
                   (False, b') \<Rightarrow> (TypeError, s\<lparr>board := b'\<rparr>)
                 | (True, b') \<Rightarrow> (SuccessScore sc, commit_move s k playedTiles sc b')))))"

section \<open>The operations of a session\<close>

text \<open>
  The requests a session receives, each handled to its end before the next: the
  socket handlers call exactly one method of the session each. An exchange carries the
  oracle of its shuffle.
\<close>

datatype op =
    AddPlayer string string
  | RemovePlayer string
  | StartGame
  | PlayMove string "placement list"
  | PassTurn string
  | ExchangeTiles "nat \<Rightarrow> nat" string "string list"

fun step :: "game \<Rightarrow> op \<Rightarrow> game" where
  "step s (AddPlayer socketId nm) = snd (addPlayer s socketId nm)"
| "step s (RemovePlayer socketId) = removePlayer s socketId"
| "step s StartGame = snd (startGame s)"
| "step s (PlayMove playerId playedTiles) = snd (playMove s playerId playedTiles)"
| "step s (PassTurn playerId) = snd (passTurn s playerId)"
| "step s (ExchangeTiles pick playerId tileIds) = snd (exchangeTiles s pick playerId tileIds)"

section \<open>The turn cursor\<close>

text \<open>
  \<open>turn_ok\<close> is the property of claim C10. \<open>turn_inv\<close> is what every operation
  keeps: it adds that the cursor of a session without players is 0, which is what makes
  the cursor valid again when the first player joins.
\<close>

definition turn_ok :: "game \<Rightarrow> bool" where
  "turn_ok s = (players s \<noteq> [] \<longrightarrow> currentPlayerIndex s < length (players s))"

definition turn_inv :: "game \<Rightarrow> bool" where
  "turn_inv s = (currentPlayerIndex s < length (players s) \<or> currentPlayerIndex s = 0)"

lemma findIndex_Some: "findIndex P xs = Some k \<Longrightarrow> k < length xs \<and> P (xs ! k)"
  by (induction xs arbitrary: k) (auto split: if_splits)

lemma check_turn_Mover:
  "check_turn s pid = Mover k \<Longrightarrow>
     k < length (players s) \<and> player_id (players s ! k) = pid \<and>
     currentPlayerIndex s < length (players s) \<and>
     player_id (players s ! currentPlayerIndex s) = pid"
  by (auto simp: check_turn_def getCurrentPlayer_def split: option.splits if_splits
      dest: findIndex_Some)

lemma dealTiles_frame [simp]:
  "length (players (dealTiles s k n)) = length (players s)"
  "currentPlayerIndex (dealTiles s k n) = currentPlayerIndex s"
  "board (dealTiles s k n) = board s"
  "gameStarted (dealTiles s k n) = gameStarted s"
  "firstMoveMade (dealTiles s k n) = firstMoveMade s"
  "hostId (dealTiles s k n) = hostId s"
  "roomId (dealTiles s k n) = roomId s"
  by (simp_all add: dealTiles_def Let_def)

lemma nextTurn_frame [simp]:
  "players (nextTurn s) = players s"
  "currentPlayerIndex (nextTurn s) = (currentPlayerIndex s + 1) mod length (players s)"
  "board (nextTurn s) = board s"
  "tileBag (nextTurn s) = tileBag s"
  "gameStarted (nextTurn s) = gameStarted s"
  "firstMoveMade (nextTurn s) = firstMoveMade s"
  "hostId (nextTurn s) = hostId s"
  "roomId (nextTurn s) = roomId s"
  by (simp_all add: nextTurn_def)

lemma next_index_less: "i < n \<Longrightarrow> Suc i mod n < (n::nat)"
  by (cases n) simp_all

lemma turn_inv_nextTurn: "players s \<noteq> [] \<Longrightarrow> turn_inv (nextTurn s)"
  by (simp add: turn_inv_def)

lemma turn_inv_addPlayer: "turn_inv s \<Longrightarrow> turn_inv (snd (addPlayer s a b))"
  by (auto simp: turn_inv_def addPlayer_def Let_def)

lemma turn_inv_removePlayer: "turn_inv s \<Longrightarrow> turn_inv (removePlayer s a)"
  by (auto simp: turn_inv_def removePlayer_def Let_def split: option.splits)

lemma foldl_dealTiles_frame:
  "length (players (foldl (\<lambda>s' i. dealTiles s' i n) s is)) = length (players s) \<and>
   currentPlayerIndex (foldl (\<lambda>s' i. dealTiles s' i n) s is) = currentPlayerIndex s"
  by (induction "is" arbitrary: s) simp_all

lemma turn_inv_startGame: "turn_inv s \<Longrightarrow> turn_inv (snd (startGame s))"
  by (simp add: turn_inv_def startGame_def foldl_dealTiles_frame)

lemma turn_inv_passTurn: "turn_inv s \<Longrightarrow> turn_inv (snd (passTurn s a))"
  by (auto simp: passTurn_def split: turn_check.splits dest!: check_turn_Mover
      intro!: turn_inv_nextTurn)

lemma turn_inv_exchangeTiles: "turn_inv s \<Longrightarrow> turn_inv (snd (exchangeTiles s pick a ids))"
  by (auto simp: exchangeTiles_def Let_def turn_inv_def next_index_less split: turn_check.splits
      dest!: check_turn_Mover)

lemma commit_move_frame [simp]:
  "length (players (commit_move s k pts sc b')) = length (players s)"
  "currentPlayerIndex (commit_move s k pts sc b') = (currentPlayerIndex s + 1) mod length (players s)"
  by (simp_all add: commit_move_def Let_def)

lemma turn_inv_playMove: "turn_inv s \<Longrightarrow> turn_inv (snd (playMove s a pts))"
  by (auto simp: playMove_def turn_inv_def next_index_less split: turn_check.splits option.splits
      validation.splits prod.splits bool.splits dest!: check_turn_Mover)

lemma turn_inv_step: "turn_inv s \<Longrightarrow> turn_inv (step s x)"
  by (cases x) (simp_all add: turn_inv_addPlayer turn_inv_removePlayer turn_inv_startGame
      turn_inv_passTurn turn_inv_exchangeTiles turn_inv_playMove)

lemma turn_inv_new_game: "turn_inv (new_game rid rnd pick)"
  by (simp add: turn_inv_def new_game_def)

lemma turn_inv_run: "turn_inv s \<Longrightarrow> turn_inv (foldl step s ops)"
  by (induction ops arbitrary: s) (simp_all add: turn_inv_step)

lemma turn_inv_imp_ok: "turn_inv s \<Longrightarrow> turn_ok s"
  by (auto simp: turn_inv_def turn_ok_def)



text \<open>
  Claim C10. In every state a session reaches from its constructor, by any sequence of
  operations, the cursor is a valid index whenever there are players. \<open>nextTurn\<close> takes
  the successor modulo the player count, which is a valid index; \<open>removePlayer\<close> keeps
  the property and leaves the cursor at 0 whenever a player was removed and the cursor
  reached or exceeded the new player count.
\<close>

theorem turn_index_valid:
  "turn_ok (foldl step (new_game rid rnd pick) ops) \<and>
   (players s \<noteq> [] \<longrightarrow>
      currentPlayerIndex (nextTurn s) = (currentPlayerIndex s + 1) mod length (players s) \<and>
      currentPlayerIndex (nextTurn s) < length (players s)) \<and>
   (turn_ok s \<longrightarrow> turn_ok (removePlayer s socketId)) \<and>
   (length (players (removePlayer s socketId)) < length (players s) \<and>
    currentPlayerIndex s \<ge> length (players (removePlayer s socketId))
      \<longrightarrow> currentPlayerIndex (removePlayer s socketId) = 0)"
proof -
  have a: "turn_ok (foldl step (new_game rid rnd pick) ops)"
    by (rule turn_inv_imp_ok, rule turn_inv_run, rule turn_inv_new_game)
  have b: "turn_ok s \<longrightarrow> turn_ok (removePlayer s socketId)"
    by (auto simp: turn_ok_def removePlayer_def Let_def split: option.splits)
  have c: "length (players (removePlayer s socketId)) < length (players s) \<and>
    currentPlayerIndex s \<ge> length (players (removePlayer s socketId))
      \<longrightarrow> currentPlayerIndex (removePlayer s socketId) = 0"
    by (auto simp: removePlayer_def Let_def split: option.splits)
  show ?thesis using a b c by simp
qed

section \<open>Passing\<close>

text \<open>The pass of the player whose turn it is.\<close>

definition pass_current :: "game \<Rightarrow> game" where
  "pass_current s = snd (passTurn s (player_id (players s ! currentPlayerIndex s)))"

lemma findIndex_exists: "x \<in> set xs \<Longrightarrow> P x \<Longrightarrow> \<exists>k. findIndex P xs = Some k"
  by (induction xs) auto

lemma check_turn_current:
  assumes "currentPlayerIndex s < length (players s)"
  shows "\<exists>k. check_turn s (player_id (players s ! currentPlayerIndex s)) = Mover k"
proof -
  have "players s ! currentPlayerIndex s \<in> set (players s)" using assms by simp
  then obtain k where "findIndex (\<lambda>p. player_id p = player_id (players s ! currentPlayerIndex s)) (players s) = Some k"
    using findIndex_exists[where P="\<lambda>p. player_id p = player_id (players s ! currentPlayerIndex s)"] by blast
  then show ?thesis using assms by (simp add: check_turn_def getCurrentPlayer_def)
qed

lemma passTurn_success:
  "fst (passTurn s pid) = Success \<Longrightarrow>
   snd (passTurn s pid) = s\<lparr>currentPlayerIndex := (currentPlayerIndex s + 1) mod length (players s)\<rparr>"
  by (auto simp: passTurn_def nextTurn_def split: turn_check.splits)

lemma pass_current_eq:
  assumes "currentPlayerIndex s < length (players s)"
  shows "passTurn s (player_id (players s ! currentPlayerIndex s)) =
     (Success, s\<lparr>currentPlayerIndex := (currentPlayerIndex s + 1) mod length (players s)\<rparr>)"
  using check_turn_current[OF assms] by (auto simp: passTurn_def nextTurn_def)

text \<open>
  Claim C7. A successful pass leaves the session as it was but for the cursor, which
  moves to the next index modulo the player count: board, bag, players with their
  scores and racks, host and flags are the same. The pass of the player whose turn it is
  succeeds, and with three players three passes in a row, each by the player then at
  turn, give back the session they started from.
\<close>

theorem pass_only_advances_turn:
  "(fst (passTurn s pid) = Success \<longrightarrow>
      snd (passTurn s pid) =
        s\<lparr>currentPlayerIndex := (currentPlayerIndex s + 1) mod length (players s)\<rparr>) \<and>
   (currentPlayerIndex s < length (players s) \<and>
    pid = player_id (players s ! currentPlayerIndex s) \<longrightarrow> fst (passTurn s pid) = Success) \<and>
   (length (players s) = 3 \<and> currentPlayerIndex s < 3 \<longrightarrow>
      pass_current (pass_current (pass_current s)) = s)"
proof -
  have c: "pass_current (pass_current (pass_current s)) = s"
    if h: "length (players s) = 3" "currentPlayerIndex s < 3"
  proof -
    let ?n = "currentPlayerIndex s"
    let ?s1 = "s\<lparr>currentPlayerIndex := (?n + 1) mod 3\<rparr>"
    let ?s2 = "s\<lparr>currentPlayerIndex := ((?n + 1) mod 3 + 1) mod 3\<rparr>"
    have 1: "pass_current s = ?s1"
      using h pass_current_eq[of s] by (simp add: pass_current_def)
    have 2: "pass_current ?s1 = ?s2"
      using h pass_current_eq[of ?s1] by (simp add: pass_current_def)
    have 3: "pass_current ?s2 = s\<lparr>currentPlayerIndex := (((?n + 1) mod 3 + 1) mod 3 + 1) mod 3\<rparr>"
      using h pass_current_eq[of ?s2] by (simp add: pass_current_def)
    have "(((?n + 1) mod 3 + 1) mod 3 + 1) mod 3 = ?n" using h(2) by presburger
    then show ?thesis by (simp only: 1 2 3) simp
  qed
  show ?thesis using passTurn_success[of s pid] pass_current_eq[of s] c by auto
qed

section \<open>The public view\<close>

lemma public_players_eq:
  "list_all2 (\<lambda>p q. q = p\<lparr>tiles := tiles q\<rparr> \<and> length (tiles q) = length (tiles p)) ps qs \<Longrightarrow>
   map (\<lambda>p. \<lparr>pp_id = player_id p, pp_name = name p, pp_score = score p,
              tileCount = length (tiles p), pp_isHost = isHost p\<rparr>) qs =
   map (\<lambda>p. \<lparr>pp_id = player_id p, pp_name = name p, pp_score = score p,
              tileCount = length (tiles p), pp_isHost = isHost p\<rparr>) ps"
proof (induction rule: list_all2_induct)
  case Nil
  then show ?case by simp
next
  case (Cons p ps q qs)
  from Cons.hyps(1) have "player_id q = player_id p" "name q = name p" "score q = score p" "isHost q = isHost p"
    "length (tiles q) = length (tiles p)"
    by (cases p, cases q, simp)+
  then show ?case using Cons.IH by simp
qed

text \<open>
  Claim C8. Two sessions that differ only in the tiles of the racks and of the bag,
  with every rack and the bag of the same size, have the same public view. The view
  lists a player as id, name, score, tile count and host flag, and nothing of a rack.
\<close>

theorem public_view_hides_racks:
  assumes "list_all2 (\<lambda>p q. q = p\<lparr>tiles := tiles q\<rparr> \<and> length (tiles q) = length (tiles p)) (players s) ps'"
    and "length bag' = length (tileBag s)"
  shows "getGameState (s\<lparr>players := ps', tileBag := bag'\<rparr>) = getGameState s"
  using public_players_eq[OF assms(1)] assms(2) by (simp add: getGameState_def)

section \<open>Rejections and faults\<close>

text \<open>A placement names a cell of the 15 by 15 board.\<close>

definition in_bounds :: "placement list \<Rightarrow> bool" where
  "in_bounds pts = list_all (\<lambda>pt. 0 \<le> row pt \<and> row pt < 15 \<and> 0 \<le> col pt \<and> col pt < 15) pts"

text \<open>The reasons \<open>playMove\<close> reports.\<close>

definition move_errors :: "string list" where
  "move_errors =
    [''Not your turn'', ''No tiles played'', ''First word must cross the center square'',
     ''Tiles must be in a single row or column'', ''Tiles must be contiguous'',
     ''New tiles must connect to existing tiles'']"

lemma validateMove_reasons:
  "validateMove s pts = Some (Invalid e) \<Longrightarrow> e \<in> set (tl move_errors)"
  by (auto simp: validateMove_def move_errors_def split: if_splits option.splits bool.splits)

lemma playMove_failure:
  "fst (playMove s pid pts) = Failure e \<Longrightarrow> snd (playMove s pid pts) = s \<and> e \<in> set move_errors"
  by (auto simp: playMove_def move_errors_def split: turn_check.splits option.splits
      validation.splits prod.splits bool.splits dest!: validateMove_reasons)

lemma passTurn_failure:
  "fst (passTurn s pid) = Failure e \<Longrightarrow> snd (passTurn s pid) = s \<and> e = ''Not your turn''"
  by (auto simp: passTurn_def split: turn_check.splits)

lemma exchangeTiles_failure:
  "fst (exchangeTiles s pick pid ids) = Failure e \<Longrightarrow>
   snd (exchangeTiles s pick pid ids) = s \<and> e \<in> {''Not your turn'', ''Not enough tiles in bag''}"
  by (auto simp: exchangeTiles_def Let_def split: turn_check.splits if_splits)

lemma check_turn_no_throw: "turn_inv s \<Longrightarrow> check_turn s pid \<noteq> Threw"
  by (auto simp: check_turn_def getCurrentPlayer_def turn_inv_def split: option.splits
      dest!: findIndex_Some)



lemma scan_line_total:
  "(\<And>j. i \<le> j \<Longrightarrow> j \<le> hi \<Longrightarrow> cellAt j \<noteq> None) \<Longrightarrow> scan_line cellAt hasNew i hi \<noteq> None"
proof (induction cellAt hasNew i hi rule: scan_line.induct)
  case (1 cellAt hasNew i hi)
  show ?case
  proof (cases "i \<le> hi")
    case True
    then obtain c where c: "cellAt i = Some c" using "1.prems"[of i] by auto
    show ?thesis
    proof (cases "\<not> hasNew i \<and> \<not> (c \<noteq> Null)")
      case True
      then show ?thesis using \<open>i \<le> hi\<close> c by (subst scan_line.simps) simp
    next
      case False
      have "scan_line cellAt hasNew (i + 1) hi \<noteq> None"
        using "1.IH"[OF \<open>i \<le> hi\<close> c False] "1.prems" by simp
      then show ?thesis using \<open>i \<le> hi\<close> c False by (subst scan_line.simps) auto
    qed
  next
    case False
    then show ?thesis by (subst scan_line.simps) simp
  qed
qed

lemma sort_not_Nil: "xs \<noteq> [] \<Longrightarrow> sort xs \<noteq> []"
  by (metis length_0_conv length_sort)

lemma hd_sort_in: "xs \<noteq> [] \<Longrightarrow> hd (sort xs) \<in> set xs"
  using hd_in_set[OF sort_not_Nil, of xs] by simp

lemma last_sort_in: "xs \<noteq> [] \<Longrightarrow> last (sort xs) \<in> set xs"
  using last_in_set[OF sort_not_Nil, of xs] by simp

lemma in_bounds_row: "in_bounds pts \<Longrightarrow> r \<in> set (map row pts) \<Longrightarrow> 0 \<le> r \<and> r < 15"
  by (auto simp: in_bounds_def list_all_iff)

lemma in_bounds_col: "in_bounds pts \<Longrightarrow> c \<in> set (map col pts) \<Longrightarrow> 0 \<le> c \<and> c < 15"
  by (auto simp: in_bounds_def list_all_iff)

lemma in_bounds_hd: "in_bounds pts \<Longrightarrow> pts \<noteq> [] \<Longrightarrow>
  0 \<le> row (hd pts) \<and> row (hd pts) < 15 \<and> 0 \<le> col (hd pts) \<and> col (hd pts) < 15"
  by (cases pts) (auto simp: in_bounds_def)

lemma sorted_rows_bounds:
  assumes "in_bounds pts" "pts \<noteq> []"
  shows "0 \<le> hd (sort (map row pts))" "last (sort (map row pts)) < 15"
  using in_bounds_row[OF assms(1)] hd_sort_in[of "map row pts"] last_sort_in[of "map row pts"] assms(2)
  by auto

lemma sorted_cols_bounds:
  assumes "in_bounds pts" "pts \<noteq> []"
  shows "0 \<le> hd (sort (map col pts))" "last (sort (map col pts)) < 15"
  using in_bounds_col[OF assms(1)] hd_sort_in[of "map col pts"] last_sort_in[of "map col pts"] assms(2)
  by auto

lemma get_cell_row: "0 \<le> r \<Longrightarrow> r < 15 \<Longrightarrow> get_cell b r c \<noteq> None"
  by (simp add: get_cell_def row_exists_def)

lemma check_contiguous_total:
  assumes "in_bounds pts" "pts \<noteq> []"
  shows "check_contiguous b pts \<noteq> None"
proof (cases "card (set (map row pts)) = 1")
  case True
  have "scan_line (\<lambda>i. get_cell b (row (hd pts)) i) (\<lambda>i. list_ex (\<lambda>pt. col pt = i) pts)
      (hd (sort (map col pts))) (last (sort (map col pts))) \<noteq> None"
    using in_bounds_hd[OF assms] by (intro scan_line_total get_cell_row) auto
  then show ?thesis using True by (simp add: check_contiguous_def Let_def)
next
  case False
  have "scan_line (\<lambda>i. get_cell b i (col (hd pts))) (\<lambda>i. list_ex (\<lambda>pt. row pt = i) pts)
      (hd (sort (map row pts))) (last (sort (map row pts))) \<noteq> None"
    using sorted_rows_bounds[OF assms] by (intro scan_line_total get_cell_row) auto
  then show ?thesis using False by (simp add: check_contiguous_def Let_def)
qed

lemma validateMove_total:
  assumes "in_bounds pts"
  shows "validateMove s pts \<noteq> None"
proof (cases "pts = []")
  case True
  then show ?thesis by (simp add: validateMove_def)
next
  case False
  from check_contiguous_total[OF assms False, of "board s"]
  obtain ok where "check_contiguous (board s) pts = Some ok" by auto
  then show ?thesis by (cases ok) (simp_all add: validateMove_def)
qed

lemma score_tiles_total:
  "in_bounds pts \<Longrightarrow> score_tiles b pts t w \<noteq> None"
proof (induction pts arbitrary: t w)
  case Nil
  then show ?case by simp
next
  case (Cons pt pts)
  then have "getPremiumSquare b (row pt) (col pt) \<noteq> None"
    by (auto simp: in_bounds_def getPremiumSquare_def get_cell_def row_exists_def split: cell.splits option.splits)
  then show ?case using Cons by (auto simp: in_bounds_def Let_def)
qed

lemma bonus_line_total:
  "(\<And>j. i \<le> j \<Longrightarrow> j \<le> hi \<Longrightarrow> cellAt j \<noteq> None \<and> cellAt j \<noteq> Some Undefined) \<Longrightarrow>
   bonus_line cellAt hasNew i hi t \<noteq> None"
proof (induction cellAt hasNew i hi t rule: bonus_line.induct)
  case (1 cellAt hasNew i hi t)
  show ?case
  proof (cases "i \<le> hi")
    case True
    then obtain c where c: "cellAt i = Some c" "c \<noteq> Undefined" using "1.prems"[of i] by auto
    show ?thesis
    proof (cases "c \<noteq> Null \<and> \<not> hasNew i")
      case True
      then obtain x where x: "c = Tile x" using c by (cases c) auto
      have "bonus_line cellAt hasNew (i + 1) hi (t + tile_value x) \<noteq> None"
        using "1.IH"(1)[OF \<open>i \<le> hi\<close> c(1) True x] "1.prems" by simp
      then show ?thesis using \<open>i \<le> hi\<close> c True x by (subst bonus_line.simps) simp
    next
      case False
      have "bonus_line cellAt hasNew (i + 1) hi t \<noteq> None"
        using "1.IH"(2)[OF \<open>i \<le> hi\<close> c(1) False] "1.prems" by simp
      then show ?thesis using \<open>i \<le> hi\<close> c False by (subst bonus_line.simps) auto
    qed
  next
    case False
    then show ?thesis by (subst bonus_line.simps) simp
  qed
qed

lemma get_cell_in_bounds:
  "0 \<le> r \<Longrightarrow> r < 15 \<Longrightarrow> 0 \<le> c \<Longrightarrow> c < 15 \<Longrightarrow>
   get_cell b r c \<noteq> None \<and> get_cell b r c \<noteq> Some Undefined"
  by (simp add: get_cell_def row_exists_def split: option.splits)

lemma line_bonus_total:
  assumes "in_bounds pts"
  shows "line_bonus b pts t \<noteq> None"
proof (cases "pts = []")
  case True
  then show ?thesis by (simp add: line_bonus_def)
next
  case ne: False
  show ?thesis
  proof (cases "card (set (map row pts)) = 1")
    case True
    have "bonus_line (\<lambda>i. get_cell b (row (hd pts)) i) (\<lambda>i. list_ex (\<lambda>pt. col pt = i) pts)
        (hd (sort (map col pts))) (last (sort (map col pts))) t \<noteq> None"
      using sorted_cols_bounds[OF assms ne] in_bounds_hd[OF assms ne]
      by (intro bonus_line_total get_cell_in_bounds) auto
    then show ?thesis using True ne by (simp add: line_bonus_def Let_def)
  next
    case False
    have "bonus_line (\<lambda>i. get_cell b i (col (hd pts))) (\<lambda>i. list_ex (\<lambda>pt. row pt = i) pts)
        (hd (sort (map row pts))) (last (sort (map row pts))) t \<noteq> None"
      using sorted_rows_bounds[OF assms ne] in_bounds_hd[OF assms ne]
      by (intro bonus_line_total get_cell_in_bounds) auto
    then show ?thesis using False ne by (simp add: line_bonus_def Let_def)
  qed
qed

lemma calculateScore_total:
  assumes "in_bounds pts"
  shows "calculateScore b pts \<noteq> None"
proof -
  from score_tiles_total[OF assms, of b 0 1]
  obtain t w where tw: "score_tiles b pts 0 1 = Some (t, w)" by auto
  from line_bonus_total[OF assms, of b t]
  obtain t' where "line_bonus b pts t = Some t'" by auto
  with tw show ?thesis by (simp add: calculateScore_def)
qed

lemma placeTiles_total: "in_bounds pts \<Longrightarrow> fst (placeTiles b pts) = True"
  by (induction pts arbitrary: b) (auto simp: in_bounds_def set_cell_def row_exists_def)

lemma playMove_valid:
  assumes "check_turn s pid = Mover k" "validateMove s pts = Some Valid" "in_bounds pts"
  shows "\<exists>sc. calculateScore (board s) pts = Some sc \<and>
     playMove s pid pts = (SuccessScore sc, commit_move s k pts sc (snd (placeTiles (board s) pts)))"
proof -
  from calculateScore_total[OF assms(3), of "board s"]
  obtain sc where sc: "calculateScore (board s) pts = Some sc" by auto
  obtain b' where b': "placeTiles (board s) pts = (True, b')"
    using placeTiles_total[OF assms(3), of "board s"] by (cases "placeTiles (board s) pts") auto
  show ?thesis using assms(1,2) sc b' by (simp add: playMove_def)
qed

lemma playMove_no_throw:
  assumes "turn_inv s" "in_bounds pts"
  shows "fst (playMove s pid pts) \<noteq> TypeError"
proof (cases "check_turn s pid")
  case (Mover k)
  from validateMove_total[OF assms(2), of s]
  obtain v where v: "validateMove s pts = Some v" by auto
  show ?thesis
  proof (cases v)
    case Valid
    from playMove_valid[OF Mover v[unfolded Valid] assms(2)] show ?thesis by auto
  next
    case (Invalid e)
    then show ?thesis using Mover v by (simp add: playMove_def)
  qed
next
  case NotYourTurn
  then show ?thesis by (simp add: playMove_def)
next
  case Threw
  then show ?thesis using check_turn_no_throw[OF assms(1), of pid] by simp
qed

lemma deal_loop_eq:
  "n \<le> length bag \<Longrightarrow>
   deal_loop n rack bag = (rack @ rev (drop (length bag - n) bag), take (length bag - n) bag)"
proof (induction n arbitrary: rack bag)
  case 0
  then show ?case by simp
next
  case (Suc n)
  then obtain ys y where bag: "bag = ys @ [y]" by (cases bag rule: rev_cases) auto
  with Suc.prems have "n \<le> length ys" by simp
  from Suc.IH[OF this] show ?case using bag \<open>n \<le> length ys\<close> by simp
qed

lemma dealTiles_rack:
  "k < length (players s) \<Longrightarrow>
   tiles (players (dealTiles s k n) ! k) =
     tiles (players s ! k) @ rev (drop (length (tileBag s) - min n (length (tileBag s))) (tileBag s))"
  by (simp add: dealTiles_def Let_def deal_loop_eq)

lemma dealTiles_bag:
  "tileBag (dealTiles s k n) = take (length (tileBag s) - min n (length (tileBag s))) (tileBag s)"
  by (simp add: dealTiles_def Let_def deal_loop_eq)

lemma commit_move_rack:
  "k < length (players s) \<Longrightarrow>
   tiles (players (commit_move s k pts sc b') ! k) =
     filter (\<lambda>t. tile_id t \<notin> set (map (\<lambda>pt. tile_id (tile pt)) pts)) (tiles (players s ! k)) @
     rev (drop (length (tileBag s) - min (length pts) (length (tileBag s))) (tileBag s))"
  by (simp add: commit_move_def Let_def dealTiles_rack)

section \<open>A small session for the examples\<close>

text \<open>
  Three players with seven tiles each at the start of play, three tiles left in the
  bag, and a move of two tiles that are in nobody's rack.
\<close>

definition demo_rnd :: "string \<Rightarrow> nat \<Rightarrow> string" where
  "demo_rnd = (\<lambda>l i. ''0.5'')"

definition demo_game :: game where
  "demo_game =
    \<lparr>roomId = ''room'',
     players =
       [\<lparr>player_id = ''p1'', name = ''Ann'', score = 0,
         tiles = map (mint demo_rnd ''E'') [0..<7], isHost = True\<rparr>,
        \<lparr>player_id = ''p2'', name = ''Bob'', score = 0,
         tiles = map (mint demo_rnd ''A'') [0..<7], isHost = False\<rparr>,
        \<lparr>player_id = ''p3'', name = ''Player 3'', score = 0,
         tiles = map (mint demo_rnd ''I'') [0..<7], isHost = False\<rparr>],
     currentPlayerIndex = 0, board = empty_board,
     tileBag = [mint demo_rnd ''Q'' 0, mint demo_rnd ''Z'' 0, mint demo_rnd ''O'' 0],
     gameStarted = True, firstMoveMade = False, hostId = Some ''p1''\<rparr>"

definition forged_tile :: tile where
  "forged_tile = \<lparr>letter = ''Q'', tile_value = 10, tile_id = ''forged''\<rparr>"

definition forged_move :: "placement list" where
  "forged_move = [\<lparr>row = 7, col = 7, tile = forged_tile\<rparr>, \<lparr>row = 7, col = 8, tile = forged_tile\<rparr>]"

section \<open>Rejected operations\<close>

text \<open>
  Claim C6. When \<open>playMove\<close>, \<open>passTurn\<close> or \<open>exchangeTiles\<close> returns a failure, the
  reason is one of the listed texts and the session is the one before the call. The move
  of a player who is not at turn fails with the turn-order reason and changes nothing.
  With a valid cursor no operation throws: a move of in-range placements, a pass and an
  exchange each return a result.
\<close>

theorem rejected_operations_atomic:
  "(fst (playMove s pid pts) = Failure e \<longrightarrow>
      snd (playMove s pid pts) = s \<and> e \<in> set move_errors) \<and>
   (fst (passTurn s pid) = Failure e \<longrightarrow> snd (passTurn s pid) = s \<and> e = ''Not your turn'') \<and>
   (fst (exchangeTiles s pick pid ids) = Failure e \<longrightarrow>
      snd (exchangeTiles s pick pid ids) = s \<and>
      e \<in> {''Not your turn'', ''Not enough tiles in bag''}) \<and>
   (turn_ok s \<and> (players s \<noteq> [] \<longrightarrow> pid \<noteq> player_id (players s ! currentPlayerIndex s)) \<longrightarrow>
      playMove s pid pts = (Failure ''Not your turn'', s)) \<and>
   (turn_ok s \<and> in_bounds pts \<longrightarrow> fst (playMove s pid pts) \<noteq> TypeError) \<and>
   (turn_ok s \<longrightarrow> fst (passTurn s pid) \<noteq> TypeError \<and>
      fst (exchangeTiles s pick pid ids) \<noteq> TypeError)"
proof -
  have a: "turn_ok s \<Longrightarrow> check_turn s pid \<noteq> Threw"
    by (auto simp: check_turn_def getCurrentPlayer_def turn_ok_def split: option.splits
        dest!: findIndex_Some)
  have b: "turn_ok s \<Longrightarrow> players s \<noteq> [] \<longrightarrow> pid \<noteq> player_id (players s ! currentPlayerIndex s) \<Longrightarrow>
      check_turn s pid = NotYourTurn"
    by (auto simp: check_turn_def getCurrentPlayer_def turn_ok_def split: option.splits
        dest!: findIndex_Some)
  have c: "turn_ok s \<Longrightarrow> in_bounds pts \<Longrightarrow> fst (playMove s pid pts) \<noteq> TypeError"
    using playMove_no_throw[of s pts pid] a
    by (cases "check_turn s pid") (auto simp: playMove_def turn_inv_def dest!: check_turn_Mover)
  have d: "turn_ok s \<Longrightarrow> fst (passTurn s pid) \<noteq> TypeError \<and>
      fst (exchangeTiles s pick pid ids) \<noteq> TypeError"
    using a by (cases "check_turn s pid") (auto simp: passTurn_def exchangeTiles_def Let_def)
  show ?thesis
    using playMove_failure[of s pid pts e] passTurn_failure[of s pid e]
      exchangeTiles_failure[of s pick pid ids e] b c d
    by (auto simp: playMove_def)
qed

text \<open>
  Claim C6 in the example session: the move, the pass and the exchange of a player not
  at turn, the empty move of the player at turn, and an exchange of more tiles than the
  bag holds.
\<close>

theorem rejected_operations_atomic_witness:
  "fst (playMove demo_game ''p2'' forged_move) = Failure ''Not your turn'' \<and>
   snd (playMove demo_game ''p2'' forged_move) = demo_game \<and>
   fst (passTurn demo_game ''p2'') = Failure ''Not your turn'' \<and>
   snd (passTurn demo_game ''p2'') = demo_game \<and>
   fst (exchangeTiles demo_game (\<lambda>i. i) ''p2'' [''A-0-0.5'']) = Failure ''Not your turn'' \<and>
   snd (exchangeTiles demo_game (\<lambda>i. i) ''p2'' [''A-0-0.5'']) = demo_game \<and>
   fst (playMove demo_game ''p1'' []) = Failure ''No tiles played'' \<and>
   snd (playMove demo_game ''p1'' []) = demo_game \<and>
   fst (exchangeTiles demo_game (\<lambda>i. i) ''p1'' [''a'', ''b'', ''c'', ''d'']) = Failure ''Not enough tiles in bag'' \<and>
   snd (exchangeTiles demo_game (\<lambda>i. i) ''p1'' [''a'', ''b'', ''c'', ''d'']) = demo_game \<and>
   turn_ok demo_game \<and> in_bounds forged_move \<and>
   fst (playMove demo_game ''p1'' forged_move) \<noteq> TypeError"
proof -
  have h1: "fst (playMove demo_game ''p2'' forged_move) = Failure ''Not your turn''" by code_simp
  have h2: "fst (passTurn demo_game ''p2'') = Failure ''Not your turn''" by code_simp
  have h3: "fst (exchangeTiles demo_game (\<lambda>i. i) ''p2'' [''A-0-0.5'']) = Failure ''Not your turn''"
    by code_simp
  have h4: "fst (playMove demo_game ''p1'' []) = Failure ''No tiles played''" by code_simp
  have h5: "fst (exchangeTiles demo_game (\<lambda>i. i) ''p1'' [''a'', ''b'', ''c'', ''d'']) =
      Failure ''Not enough tiles in bag''" by code_simp
  have h6: "turn_ok demo_game" "in_bounds forged_move" by code_simp+
  note t1 = rejected_operations_atomic[of demo_game "''p2''" forged_move "''Not your turn''" "\<lambda>i. i" "[''A-0-0.5'']"]
  note t2 = rejected_operations_atomic[of demo_game "''p1''" "[]" "''No tiles played''" "\<lambda>i. i" "[''a'', ''b'', ''c'', ''d'']"]
  note t3 = rejected_operations_atomic[of demo_game "''p1''" "[]" "''Not enough tiles in bag''" "\<lambda>i. i" "[''a'', ''b'', ''c'', ''d'']"]
  note t4 = rejected_operations_atomic[of demo_game "''p1''" forged_move "''x''" "\<lambda>i. i" "[]"]
  show ?thesis using h1 h2 h3 h4 h5 h6 t1 t2 t3 t4 by blast
qed

section \<open>Tiles that are not in the rack\<close>

lemma rack_can_exceed_seven:
  "check_turn demo_game ''p1'' = Mover 0 \<and> validateMove demo_game forged_move = Some Valid \<and>
   in_bounds forged_move \<and>
   list_all (\<lambda>pt. tile_id (tile pt) \<notin> tile_id ` set (tiles (players demo_game ! 0))) forged_move \<and>
   length (tiles (players demo_game ! 0)) = 7 \<and>
   length (tiles (players (snd (playMove demo_game ''p1'' forged_move)) ! 0)) = 9"
  by code_simp

text \<open>
  Claim C9. The player at turn submits a valid placement of tiles whose ids do not
  occur in the rack (\<open>k\<close> is the index of the player object \<open>playMove\<close> works on). The
  move succeeds, the rack keeps all its tiles and receives as many tiles from the end of
  the bag as were placed, or the whole bag if that is less. So the rack grows whenever
  the bag is not empty, and it can hold more than seven tiles.
\<close>

theorem playMove_never_checks_rack:
  assumes "check_turn s pid = Mover k" and "validateMove s pts = Some Valid" and "in_bounds pts"
    and "list_all (\<lambda>pt. tile_id (tile pt) \<notin> tile_id ` set (tiles (players s ! k))) pts"
  shows "(\<exists>sc. fst (playMove s pid pts) = SuccessScore sc) \<and>
    tiles (players (snd (playMove s pid pts)) ! k) =
      tiles (players s ! k) @
      rev (drop (length (tileBag s) - min (length pts) (length (tileBag s))) (tileBag s)) \<and>
    length (tiles (players (snd (playMove s pid pts)) ! k)) =
      length (tiles (players s ! k)) + min (length pts) (length (tileBag s)) \<and>
    (tileBag s \<noteq> [] \<longrightarrow>
      length (tiles (players (snd (playMove s pid pts)) ! k)) > length (tiles (players s ! k))) \<and>
    (\<exists>s' pid' pts' k'. check_turn s' pid' = Mover k' \<and> validateMove s' pts' = Some Valid \<and>
       in_bounds pts' \<and> length (tiles (players (snd (playMove s' pid' pts')) ! k')) > 7)"
proof -
  from playMove_valid[OF assms(1-3)] obtain sc where
    pm: "playMove s pid pts = (SuccessScore sc, commit_move s k pts sc (snd (placeTiles (board s) pts)))"
    by blast
  have k: "k < length (players s)" using check_turn_Mover[OF assms(1)] by simp
  have keep: "filter (\<lambda>t. tile_id t \<notin> (\<lambda>pt. tile_id (tile pt)) ` set pts) (tiles (players s ! k))
      = tiles (players s ! k)"
  proof -
    have "tile_id t \<notin> (\<lambda>pt. tile_id (tile pt)) ` set pts" if "t \<in> set (tiles (players s ! k))" for t
    proof
      assume "tile_id t \<in> (\<lambda>pt. tile_id (tile pt)) ` set pts"
      then obtain pt where pt: "pt \<in> set pts" "tile_id (tile pt) = tile_id t" by auto
      have "tile_id (tile pt) \<in> tile_id ` set (tiles (players s ! k))"
        unfolding pt(2) using that by (rule imageI)
      then show False using assms(4) pt(1) by (simp add: list_all_iff)
    qed
    then show ?thesis by (intro filter_True) blast
  qed
  have rack: "tiles (players (snd (playMove s pid pts)) ! k) =
      tiles (players s ! k) @
      rev (drop (length (tileBag s) - min (length pts) (length (tileBag s))) (tileBag s))"
    by (simp add: pm commit_move_rack[OF k] keep)
  have ne: "pts \<noteq> []" using assms(2) by (auto simp: validateMove_def)
  have len: "length (tiles (players (snd (playMove s pid pts)) ! k)) =
      length (tiles (players s ! k)) + min (length pts) (length (tileBag s))"
    by (subst rack) auto
  have strict: "tileBag s \<noteq> [] \<longrightarrow>
      length (tiles (players (snd (playMove s pid pts)) ! k)) > length (tiles (players s ! k))"
    using ne by (subst len) (cases pts; cases "tileBag s"; simp)
  have ex: "\<exists>s' pid' pts' k'. check_turn s' pid' = Mover k' \<and> validateMove s' pts' = Some Valid \<and>
       in_bounds pts' \<and> length (tiles (players (snd (playMove s' pid' pts')) ! k')) > 7"
    using rack_can_exceed_seven by (intro exI[of _ demo_game] exI[of _ "''p1''"] exI[of _ forged_move] exI[of _ 0]) simp
  show ?thesis using pm rack len strict ex by simp
qed

text \<open>Claim C9 in the example session: the rack of seven holds nine tiles after the move.\<close>

theorem playMove_never_checks_rack_witness:
  "check_turn demo_game ''p1'' = Mover 0 \<and> validateMove demo_game forged_move = Some Valid \<and>
   in_bounds forged_move \<and>
   list_all (\<lambda>pt. tile_id (tile pt) \<notin> tile_id ` set (tiles (players demo_game ! 0))) forged_move \<and>
   (\<exists>sc. fst (playMove demo_game ''p1'' forged_move) = SuccessScore sc) \<and>
   length (tiles (players (snd (playMove demo_game ''p1'' forged_move)) ! 0)) = 7 + 2"
proof -
  have h: "check_turn demo_game ''p1'' = Mover 0" "validateMove demo_game forged_move = Some Valid"
    "in_bounds forged_move"
    "list_all (\<lambda>pt. tile_id (tile pt) \<notin> tile_id ` set (tiles (players demo_game ! 0))) forged_move"
    using rack_can_exceed_seven by simp_all
  have l: "length (tiles (players demo_game ! 0)) = 7" "length forged_move = 2" "length (tileBag demo_game) = 3"
    by code_simp+
  from playMove_never_checks_rack[OF h] h l show ?thesis by simp
qed

text \<open>Claim C7 in the example session, which has three players.\<close>

theorem pass_only_advances_turn_witness:
  "fst (passTurn demo_game ''p1'') = Success \<and>
   snd (passTurn demo_game ''p1'') = demo_game\<lparr>currentPlayerIndex := 1\<rparr> \<and>
   length (players demo_game) = 3 \<and> currentPlayerIndex demo_game < 3 \<and>
   pass_current (pass_current (pass_current demo_game)) = demo_game"
proof -
  have h: "fst (passTurn demo_game ''p1'') = Success" "length (players demo_game) = 3"
    "currentPlayerIndex demo_game = 0" 
    by code_simp+
  from pass_only_advances_turn[of demo_game "''p1''"] h show ?thesis by simp
qed

text \<open>The example session with the racks passed round and the bag reversed.\<close>

definition demo_game_hidden :: game where
  "demo_game_hidden =
     demo_game\<lparr>players :=
        [(players demo_game ! 0)\<lparr>tiles := tiles (players demo_game ! 1)\<rparr>,
         (players demo_game ! 1)\<lparr>tiles := tiles (players demo_game ! 2)\<rparr>,
         (players demo_game ! 2)\<lparr>tiles := tiles (players demo_game ! 0)\<rparr>],
       tileBag := rev (tileBag demo_game)\<rparr>"

text \<open>Claim C8 for the two example sessions, whose racks differ.\<close>

theorem public_view_hides_racks_witness:
  "tiles (players demo_game_hidden ! 0) \<noteq> tiles (players demo_game ! 0) \<and>
   getGameState demo_game_hidden = getGameState demo_game"
proof -
  have a: "list_all2 (\<lambda>p q. q = p\<lparr>tiles := tiles q\<rparr> \<and> length (tiles q) = length (tiles p))
     (players demo_game)
     [(players demo_game ! 0)\<lparr>tiles := tiles (players demo_game ! 1)\<rparr>,
         (players demo_game ! 1)\<lparr>tiles := tiles (players demo_game ! 2)\<rparr>,
         (players demo_game ! 2)\<lparr>tiles := tiles (players demo_game ! 0)\<rparr>]"
    by (simp add: demo_game_def)
  have b: "length (rev (tileBag demo_game)) = length (tileBag demo_game)" by simp
  have c: "tiles (players demo_game_hidden ! 0) \<noteq> tiles (players demo_game ! 0)"
    by code_simp
  from public_view_hides_racks[OF a b] c show ?thesis by (simp add: demo_game_hidden_def)
qed

text \<open>
  Claim C10 after three players joined a new session, the first passed and the third
  left, and for the example session.
\<close>

definition demo_ops :: "op list" where
  "demo_ops = [AddPlayer ''p1'' ''Ann'', AddPlayer ''p2'' ''Bob'', AddPlayer ''p3'' '''',
     PassTurn ''p1'', RemovePlayer ''p3'']"

theorem turn_index_valid_witness:
  "players (foldl step (new_game ''room'' demo_rnd (\<lambda>i. i)) demo_ops) \<noteq> [] \<and>
   currentPlayerIndex (foldl step (new_game ''room'' demo_rnd (\<lambda>i. i)) demo_ops) < 
     length (players (foldl step (new_game ''room'' demo_rnd (\<lambda>i. i)) demo_ops)) \<and>
   players demo_game \<noteq> [] \<and>
   currentPlayerIndex (nextTurn demo_game) < length (players demo_game) \<and>
   turn_ok demo_game \<and> turn_ok (removePlayer demo_game ''p3'')"
proof -
  have a: "players (foldl step (new_game ''room'' demo_rnd (\<lambda>i. i)) demo_ops) \<noteq> []"
    by (simp add: demo_ops_def new_game_def addPlayer_def passTurn_def check_turn_def
        getCurrentPlayer_def nextTurn_def removePlayer_def Let_def)
  have b: "players demo_game \<noteq> []" "turn_ok demo_game" by code_simp+
  from turn_index_valid[of "''room''" demo_rnd "\<lambda>i. i" demo_ops demo_game "''p3''"] a b
  show ?thesis by (simp add: turn_ok_def)
qed

section \<open>Move validation as the specification orders it\<close>

text \<open>
  The validation of the specification, written from its words: five checks in order,
  the first that fails gives the verdict. \<open>has_tile\<close> is a tile that lies on the board
  before the move. The placements lie along the row when they share one row, else
  along the column; \<open>line_index\<close> is a placement's coordinate along that line and
  \<open>line_cell\<close> the board cell at an index of the line.
\<close>

datatype reason = NoTilesPlayed | CenterNotCovered | NotSingleLine | NotContiguous | NotConnected

datatype verdict = Accept | Reject reason

fun reason_text :: "reason \<Rightarrow> string" where
  "reason_text NoTilesPlayed = ''No tiles played''"
| "reason_text CenterNotCovered = ''First word must cross the center square''"
| "reason_text NotSingleLine = ''Tiles must be in a single row or column''"
| "reason_text NotContiguous = ''Tiles must be contiguous''"
| "reason_text NotConnected = ''New tiles must connect to existing tiles''"

definition report :: "verdict \<Rightarrow> validation" where
  "report v = (case v of Accept \<Rightarrow> Valid | Reject r \<Rightarrow> Invalid (reason_text r))"

definition has_tile :: "board \<Rightarrow> int \<Rightarrow> int \<Rightarrow> bool" where
  "has_tile b r c = (0 \<le> r \<and> r < 15 \<and> 0 \<le> c \<and> c < 15 \<and> b r c \<noteq> None)"

definition along_row :: "placement list \<Rightarrow> bool" where
  "along_row pts = (card (row ` set pts) = 1)"

definition line_index :: "placement list \<Rightarrow> placement \<Rightarrow> int" where
  "line_index pts pt = (if along_row pts then col pt else row pt)"

definition line_cell :: "placement list \<Rightarrow> int \<Rightarrow> int \<times> int" where
  "line_cell pts i =
    (if along_row pts then (Min (row ` set pts), i) else (i, Min (col ` set pts)))"

definition line_lo :: "placement list \<Rightarrow> int" where
  "line_lo pts = Min (line_index pts ` set pts)"

definition line_hi :: "placement list \<Rightarrow> int" where
  "line_hi pts = Max (line_index pts ` set pts)"

definition spec_contiguous :: "board \<Rightarrow> placement list \<Rightarrow> bool" where
  "spec_contiguous b pts =
    (\<forall>i \<in> {line_lo pts..line_hi pts}.
       (\<exists>pt \<in> set pts. line_index pts pt = i) \<or>
       (case line_cell pts i of (r, c) \<Rightarrow> has_tile b r c))"

definition spec_connected :: "board \<Rightarrow> placement list \<Rightarrow> bool" where
  "spec_connected b pts =
    (\<exists>pt \<in> set pts.
       has_tile b (row pt - 1) (col pt) \<or> has_tile b (row pt + 1) (col pt) \<or>
       has_tile b (row pt) (col pt - 1) \<or> has_tile b (row pt) (col pt + 1))"

definition spec_validate :: "bool \<Rightarrow> board \<Rightarrow> placement list \<Rightarrow> verdict" where
  "spec_validate openingMovePlayed b pts =
    (if pts = [] then Reject NoTilesPlayed
     else if \<not> openingMovePlayed \<and> (7, 7) \<notin> (\<lambda>pt. (row pt, col pt)) ` set pts
       then Reject CenterNotCovered
     else if card (row ` set pts) > 1 \<and> card (col ` set pts) > 1 then Reject NotSingleLine
     else if \<not> spec_contiguous b pts then Reject NotContiguous
     else if openingMovePlayed \<and> \<not> spec_connected b pts then Reject NotConnected
     else Accept)"

lemma int_range_split: "i \<le> hi \<Longrightarrow> {i..hi} = insert i {i + 1..hi}" for i :: int
  by auto

lemma scan_line_iff:
  "(\<And>j. i \<le> j \<Longrightarrow> j \<le> hi \<Longrightarrow> cellAt j \<noteq> None) \<Longrightarrow>
   scan_line cellAt hasNew i hi = Some (\<forall>j \<in> {i..hi}. hasNew j \<or> cellAt j \<noteq> Some Null)"
proof (induction cellAt hasNew i hi rule: scan_line.induct)
  case (1 cellAt hasNew i hi)
  show ?case
  proof (cases "i \<le> hi")
    case True
    then obtain c where c: "cellAt i = Some c" using "1.prems"[of i] by auto
    show ?thesis
    proof (cases "\<not> hasNew i \<and> \<not> (c \<noteq> Null)")
      case gap: True
      have "\<not> (\<forall>j \<in> {i..hi}. hasNew j \<or> cellAt j \<noteq> Some Null)"
        using gap c True by auto
      then show ?thesis using True c gap by (subst scan_line.simps) simp
    next
      case False
      have ih: "scan_line cellAt hasNew (i + 1) hi =
          Some (\<forall>j \<in> {i + 1..hi}. hasNew j \<or> cellAt j \<noteq> Some Null)"
        using "1.IH"[OF True c False] "1.prems" by simp
      have "(\<forall>j \<in> {i..hi}. hasNew j \<or> cellAt j \<noteq> Some Null) =
          (\<forall>j \<in> {i + 1..hi}. hasNew j \<or> cellAt j \<noteq> Some Null)"
        using False c by (subst int_range_split[OF True]) auto
      then show ?thesis using True c False ih by (subst scan_line.simps) auto
    qed
  next
    case False
    then show ?thesis by (subst scan_line.simps) simp
  qed
qed

lemma sorted_le_last: "sorted ys \<Longrightarrow> z \<in> set ys \<Longrightarrow> z \<le> last ys" for ys :: "int list"
  by (induction ys) auto

lemma hd_sort_Min: "xs \<noteq> [] \<Longrightarrow> hd (sort xs) = Min (set xs)" for xs :: "int list"
proof -
  assume ne: "xs \<noteq> []"
  obtain y ys where ys: "sort xs = y # ys" using sort_not_Nil[OF ne] by (cases "sort xs") auto
  have "sorted (y # ys)" "set (y # ys) = set xs" using ys[symmetric] by simp_all
  then have "Min (set xs) = y" by (intro Min_eqI) auto
  then show ?thesis using ys by simp
qed

lemma last_sort_Max: "xs \<noteq> [] \<Longrightarrow> last (sort xs) = Max (set xs)" for xs :: "int list"
proof -
  assume ne: "xs \<noteq> []"
  have "Max (set xs) = last (sort xs)"
    using sorted_le_last[of "sort xs"] last_sort_in[OF ne] by (intro Max_eqI) auto
  then show ?thesis by simp
qed

lemma card_one_hd:
  assumes "card (f ` set pts) = 1" 
  shows "\<forall>pt \<in> set pts. f pt = f (hd pts)" and "Min (f ` set pts) = f (hd pts)" and "pts \<noteq> []"
proof -
  from assms have "\<exists>x. f ` set pts = {x}" by (simp add: card_1_singleton_iff)
  then obtain x where x: "f ` set pts = {x}" by blast
  then show ne: "pts \<noteq> []" by auto
  then have "f (hd pts) \<in> f ` set pts" by simp
  with x have "f (hd pts) = x" by simp
  with x show "\<forall>pt \<in> set pts. f pt = f (hd pts)" "Min (f ` set pts) = f (hd pts)" by auto
qed

lemma card_image_pos: "pts \<noteq> [] \<Longrightarrow> 0 < card (f ` set pts)"
  by (simp add: card_gt_0_iff)

lemma single_line_cases:
  assumes "pts \<noteq> []" and "\<not> (card (row ` set pts) > 1 \<and> card (col ` set pts) > 1)"
    and "card (row ` set pts) \<noteq> 1"
  shows "card (col ` set pts) = 1"
  using assms card_image_pos[OF assms(1), of row] card_image_pos[OF assms(1), of col] by linarith

lemma get_cell_not_Null:
  "0 \<le> r \<Longrightarrow> r < 15 \<Longrightarrow> 0 \<le> c \<Longrightarrow> c < 15 \<Longrightarrow>
   (get_cell b r c \<noteq> Some Null) = has_tile b r c"
  by (simp add: get_cell_def row_exists_def has_tile_def split: option.splits)

lemma line_bounds:
  assumes "in_bounds pts" "pts \<noteq> []"
  shows "0 \<le> Min (row ` set pts)" "Max (row ` set pts) < 15"
    "0 \<le> Min (col ` set pts)" "Max (col ` set pts) < 15"
  using sorted_rows_bounds[OF assms] sorted_cols_bounds[OF assms] assms(2)
  by (simp_all add: hd_sort_Min last_sort_Max)

lemma check_contiguous_spec:
  assumes ib: "in_bounds pts" and ne: "pts \<noteq> []"
    and sl: "\<not> (card (row ` set pts) > 1 \<and> card (col ` set pts) > 1)"
  shows "check_contiguous b pts = Some (spec_contiguous b pts)"
proof (cases "card (row ` set pts) = 1")
  case True
  let ?r = "row (hd pts)"
  let ?lo = "Min (col ` set pts)" and ?hi = "Max (col ` set pts)"
  have r: "0 \<le> ?r" "?r < 15" using in_bounds_hd[OF ib ne] by simp_all
  have scan: "scan_line (\<lambda>i. get_cell b ?r i) (\<lambda>i. list_ex (\<lambda>pt. col pt = i) pts) ?lo ?hi =
      Some (\<forall>j \<in> {?lo..?hi}. list_ex (\<lambda>pt. col pt = j) pts \<or> get_cell b ?r j \<noteq> Some Null)"
    using r by (intro scan_line_iff get_cell_row) auto
  have "(\<forall>j \<in> {?lo..?hi}. list_ex (\<lambda>pt. col pt = j) pts \<or> get_cell b ?r j \<noteq> Some Null) =
      spec_contiguous b pts"
    unfolding spec_contiguous_def line_lo_def line_hi_def line_index_def line_cell_def along_row_def
    using True card_one_hd(2)[OF True] r line_bounds[OF ib ne]
    by (auto simp: list_ex_iff get_cell_not_Null intro!: ball_cong)
  with scan True ne show ?thesis
    by (simp add: check_contiguous_def Let_def hd_sort_Min last_sort_Max)
next
  case False
  have c1: "card (col ` set pts) = 1" using single_line_cases[OF ne sl False] .
  let ?c = "col (hd pts)"
  let ?lo = "Min (row ` set pts)" and ?hi = "Max (row ` set pts)"
  have c: "0 \<le> ?c" "?c < 15" using in_bounds_hd[OF ib ne] by simp_all
  have scan: "scan_line (\<lambda>i. get_cell b i ?c) (\<lambda>i. list_ex (\<lambda>pt. row pt = i) pts) ?lo ?hi =
      Some (\<forall>j \<in> {?lo..?hi}. list_ex (\<lambda>pt. row pt = j) pts \<or> get_cell b j ?c \<noteq> Some Null)"
    using line_bounds[OF ib ne] by (intro scan_line_iff get_cell_row) auto
  have "(\<forall>j \<in> {?lo..?hi}. list_ex (\<lambda>pt. row pt = j) pts \<or> get_cell b j ?c \<noteq> Some Null) =
      spec_contiguous b pts"
    unfolding spec_contiguous_def line_lo_def line_hi_def line_index_def line_cell_def along_row_def
    using False card_one_hd(2)[OF c1] c line_bounds[OF ib ne]
    by (auto simp: list_ex_iff get_cell_not_Null intro!: ball_cong)
  with scan False ne show ?thesis
    by (simp add: check_contiguous_def Let_def hd_sort_Min last_sort_Max)
qed

lemma occupied_neighbor_has_tile: "occupied_neighbor b (r, c) = has_tile b r c"
  by (auto simp: occupied_neighbor_def has_tile_def get_cell_def row_exists_def split: option.splits)

lemma connected_spec: "connected b pts = spec_connected b pts"
  by (simp add: connected_def spec_connected_def neighbors_def list_ex_iff occupied_neighbor_has_tile)

lemma center_spec:
  "list_ex (\<lambda>pt. row pt = 7 \<and> col pt = 7) pts = ((7, 7) \<in> (\<lambda>pt. (row pt, col pt)) ` set pts)"
  by (auto simp: list_ex_iff)

lemma reason_text_inj: "inj reason_text"
proof (rule injI)
  fix x y assume "reason_text x = reason_text y"
  then show "x = y" by (cases x; cases y) simp_all
qed

text \<open>
  Claim C4, as the code has it. For placements on cells of the board, rows and
  columns 0 to 14, \<open>validateMove\<close> returns what the five checks of the specification
  give in their order: the text of the first check that fails, or acceptance when none
  does. The five texts differ from each other.
\<close>

theorem validateMove_follows_spec_order:
  assumes "in_bounds pts"
  shows "validateMove s pts = Some (report (spec_validate (firstMoveMade s) (board s) pts)) \<and>
    inj reason_text"
proof (cases "pts = [] \<or> (\<not> firstMoveMade s \<and> (7, 7) \<notin> (\<lambda>pt. (row pt, col pt)) ` set pts) \<or>
    (card (row ` set pts) > 1 \<and> card (col ` set pts) > 1)")
  case True
  then show ?thesis
    by (auto simp: validateMove_def spec_validate_def report_def center_spec reason_text_inj)
next
  case False
  then have ne: "pts \<noteq> []" and sl: "\<not> (card (row ` set pts) > 1 \<and> card (col ` set pts) > 1)"
    by auto
  from check_contiguous_spec[OF assms ne sl, of "board s"] False show ?thesis
    by (auto simp: validateMove_def spec_validate_def report_def center_spec connected_spec
        reason_text_inj)
qed


text \<open>
  Moves for the examples: one with a gap, one in the corner, and the example session
  after the opening move \<open>forged_move\<close>, with a move that extends the two tiles on the
  board at both ends.
\<close>

definition gap_move :: "placement list" where
  "gap_move = [\<lparr>row = 7, col = 7, tile = forged_tile\<rparr>, \<lparr>row = 7, col = 9, tile = forged_tile\<rparr>]"

definition corner_move :: "placement list" where
  "corner_move = [\<lparr>row = 0, col = 0, tile = forged_tile\<rparr>, \<lparr>row = 1, col = 0, tile = forged_tile\<rparr>]"

definition demo_game_opened :: game where
  "demo_game_opened = snd (playMove demo_game ''p1'' forged_move)"

definition extending_move :: "placement list" where
  "extending_move = [\<lparr>row = 7, col = 6, tile = mint demo_rnd ''A'' 0\<rparr>,
     \<lparr>row = 7, col = 9, tile = mint demo_rnd ''A'' 1\<rparr>]"

text \<open>
  Claim C4 in the example session: an accepted opening, a gap, an opening that misses
  the centre, and after the opening a move that touches no tile.
\<close>

theorem validateMove_follows_spec_order_witness:
  "in_bounds forged_move \<and> in_bounds gap_move \<and> in_bounds corner_move \<and>
   validateMove demo_game forged_move = Some Valid \<and>
   spec_validate (firstMoveMade demo_game) (board demo_game) forged_move = Accept \<and>
   validateMove demo_game gap_move = Some (Invalid ''Tiles must be contiguous'') \<and>
   spec_validate (firstMoveMade demo_game) (board demo_game) gap_move = Reject NotContiguous \<and>
   validateMove demo_game corner_move = Some (Invalid ''First word must cross the center square'') \<and>
   spec_validate (firstMoveMade demo_game) (board demo_game) corner_move = Reject CenterNotCovered \<and>
   validateMove demo_game_opened corner_move =
     Some (Invalid ''New tiles must connect to existing tiles'') \<and>
   spec_validate (firstMoveMade demo_game_opened) (board demo_game_opened) corner_move =
     Reject NotConnected \<and>
   validateMove demo_game_opened corner_move =
     Some (report (spec_validate (firstMoveMade demo_game_opened) (board demo_game_opened) corner_move))"
proof -
  have ib: "in_bounds forged_move" "in_bounds gap_move" "in_bounds corner_move" by code_simp+
  have sv: "spec_validate (firstMoveMade demo_game) (board demo_game) forged_move = Accept"
    "spec_validate (firstMoveMade demo_game) (board demo_game) gap_move = Reject NotContiguous"
    "spec_validate (firstMoveMade demo_game) (board demo_game) corner_move = Reject CenterNotCovered"
    "spec_validate (firstMoveMade demo_game_opened) (board demo_game_opened) corner_move =
      Reject NotConnected"
    by code_simp+
  note t = validateMove_follows_spec_order[OF ib(1), of demo_game]
    validateMove_follows_spec_order[OF ib(2), of demo_game]
    validateMove_follows_spec_order[OF ib(3), of demo_game]
    validateMove_follows_spec_order[OF ib(3), of demo_game_opened]
  show ?thesis using ib t by (simp add: sv report_def)
qed

text \<open>
  The example session after a second move that reaches column 13 of row 7, and two
  placement sets that leave the board: one with a placement at column 16, one at row 15.
\<close>

definition edge_move :: "placement list" where
  "edge_move = map (\<lambda>i. \<lparr>row = 7, col = 9 + int i, tile = mint demo_rnd ''A'' i\<rparr>) [0..<5]"

definition demo_game_edge :: game where
  "demo_game_edge = snd (playMove demo_game_opened ''p2'' edge_move)"

definition off_board_move :: "placement list" where
  "off_board_move = [\<lparr>row = 7, col = 14, tile = mint demo_rnd ''I'' 0\<rparr>,
     \<lparr>row = 7, col = 16, tile = mint demo_rnd ''I'' 1\<rparr>]"

definition below_board_move :: "placement list" where
  "below_board_move = [\<lparr>row = 15, col = 7, tile = mint demo_rnd ''I'' 0\<rparr>]"

text \<open>
  Claim C4 as written speaks of every placement set. With placements at columns 14
  and 16 of row 7, index 15 of the line is covered by no placement and no board tile, so
  the contiguity check of the specification rejects; \<open>board[7][15]\<close> is \<open>undefined\<close>,
  which is not \<open>null\<close>, so the loop of \<open>validateMove\<close> takes it for a tile and the set is
  accepted (\<open>playMove\<close> then throws while scoring). With a placement at row 15,
  \<open>board[15]\<close> is \<open>undefined\<close> and \<open>validateMove\<close> throws instead of reporting a reason.
\<close>

theorem off_board_gap_accepted:
  "fst (playMove demo_game_opened ''p2'' edge_move) = SuccessScore 6 \<and>
   validateMove demo_game_edge off_board_move = Some Valid \<and>
   spec_validate (firstMoveMade demo_game_edge) (board demo_game_edge) off_board_move =
     Reject NotContiguous \<and>
   validateMove demo_game_edge off_board_move \<noteq>
     Some (report (spec_validate (firstMoveMade demo_game_edge) (board demo_game_edge)
       off_board_move)) \<and>
   fst (playMove demo_game_edge ''p3'' off_board_move) = TypeError \<and>
   validateMove demo_game_edge below_board_move = None \<and>
   spec_validate (firstMoveMade demo_game_edge) (board demo_game_edge) below_board_move =
     Reject NotConnected"
  by code_simp

section \<open>The score as the specification computes it\<close>

text \<open>
  The score of the specification, written from its words. The premium kind of a cell
  comes from the static table and counts only while the cell is empty on the board
  before the move. The line bonus adds the values of the tiles that lie on the board
  within the range of the placed line.
\<close>

definition premiumKind :: "int \<Rightarrow> int \<Rightarrow> premium option" where
  "premiumKind r c =
    (if (r, c) \<in> set (positions_of TW) then Some TW
     else if (r, c) \<in> set (positions_of DW) then Some DW
     else if (r, c) \<in> set (positions_of TL) then Some TL
     else if (r, c) \<in> set (positions_of DL) then Some DL
     else None)"

definition letter_factor :: "board \<Rightarrow> placement \<Rightarrow> int" where
  "letter_factor b pt =
    (if b (row pt) (col pt) \<noteq> None then 1
     else if premiumKind (row pt) (col pt) = Some DL then 2
     else if premiumKind (row pt) (col pt) = Some TL then 3
     else 1)"

definition word_factor :: "board \<Rightarrow> placement \<Rightarrow> int" where
  "word_factor b pt =
    (if b (row pt) (col pt) \<noteq> None then 1
     else if premiumKind (row pt) (col pt) = Some DW then 2
     else if premiumKind (row pt) (col pt) = Some TW then 3
     else 1)"

definition existing_value :: "board \<Rightarrow> int \<times> int \<Rightarrow> int" where
  "existing_value b rc =
    (case rc of (r, c) \<Rightarrow>
       (case b r c of Some t \<Rightarrow> if has_tile b r c then tile_value t else 0 | None \<Rightarrow> 0))"

definition spec_score :: "board \<Rightarrow> placement list \<Rightarrow> int" where
  "spec_score b pts =
    ((\<Sum>pt\<leftarrow>pts. tile_value (tile pt) * letter_factor b pt) +
     (\<Sum>i\<leftarrow>[line_lo pts..line_hi pts]. existing_value b (line_cell pts i)))
    * (\<Prod>pt\<leftarrow>pts. word_factor b pt)
    + (if length pts = 7 then 50 else 0)"

definition targets_empty :: "board \<Rightarrow> placement list \<Rightarrow> bool" where
  "targets_empty b pts = list_all (\<lambda>pt. b (row pt) (col pt) = None) pts"

lemma premium_table_split:
  "PREMIUM_SQUARES =
     [(TW, positions_of TW), (DW, positions_of DW), (TL, positions_of TL), (DL, positions_of DL)]"
  by (simp add: PREMIUM_SQUARES_def positions_of_def)

lemma find_premium_kind: "find_premium PREMIUM_SQUARES r c = premiumKind r c"
  by (subst premium_table_split) (simp add: premiumKind_def)

lemma getPremiumSquare_in_bounds:
  "0 \<le> r \<Longrightarrow> r < 15 \<Longrightarrow> 0 \<le> c \<Longrightarrow> c < 15 \<Longrightarrow>
   getPremiumSquare b r c = Some (if b r c \<noteq> None then None else premiumKind r c)"
  by (auto simp: getPremiumSquare_def get_cell_def row_exists_def find_premium_kind
      split: option.splits)

lemma score_tiles_spec:
  "in_bounds pts \<Longrightarrow>
   score_tiles b pts t w =
     Some (t + (\<Sum>pt\<leftarrow>pts. tile_value (tile pt) * letter_factor b pt),
           w * (\<Prod>pt\<leftarrow>pts. word_factor b pt))"
proof (induction pts arbitrary: t w)
  case Nil
  then show ?case by simp
next
  case (Cons pt pts)
  then have ib: "in_bounds pts" and
    b: "0 \<le> row pt" "row pt < 15" "0 \<le> col pt" "col pt < 15"
    by (simp_all add: in_bounds_def)
  show ?case
    by (simp add: getPremiumSquare_in_bounds[OF b] Cons.IH[OF ib] letter_factor_def
        word_factor_def Let_def algebra_simps)
qed

fun cell_value :: "cell option \<Rightarrow> int" where
  "cell_value (Some (Tile t)) = tile_value t"
| "cell_value _ = 0"

lemma bonus_line_spec:
  "(\<And>j. i \<le> j \<Longrightarrow> j \<le> hi \<Longrightarrow>
      cellAt j \<noteq> None \<and> cellAt j \<noteq> Some Undefined \<and> (hasNew j \<longrightarrow> cellAt j = Some Null)) \<Longrightarrow>
   bonus_line cellAt hasNew i hi t = Some (t + (\<Sum>j\<leftarrow>[i..hi]. cell_value (cellAt j)))"
proof (induction cellAt hasNew i hi t rule: bonus_line.induct)
  case (1 cellAt hasNew i hi t)
  show ?case
  proof (cases "i \<le> hi")
    case True
    then obtain c where c: "cellAt i = Some c" "c \<noteq> Undefined" "hasNew i \<longrightarrow> c = Null"
      using "1.prems"[of i] by auto
    show ?thesis
    proof (cases "c \<noteq> Null \<and> \<not> hasNew i")
      case t: True
      then obtain x where x: "c = Tile x" using c by (cases c) auto
      have "bonus_line cellAt hasNew (i + 1) hi (t + tile_value x) =
          Some (t + tile_value x + (\<Sum>j\<leftarrow>[i + 1..hi]. cell_value (cellAt j)))"
        using "1.IH"(1)[OF True c(1) t x] "1.prems" by simp
      then show ?thesis using True c t x
        by (subst bonus_line.simps, subst upto_rec1[OF True]) simp
    next
      case False
      then have n: "c = Null" using c by auto
      have "bonus_line cellAt hasNew (i + 1) hi t =
          Some (t + (\<Sum>j\<leftarrow>[i + 1..hi]. cell_value (cellAt j)))"
        using "1.IH"(2)[OF True c(1) False] "1.prems" by simp
      then show ?thesis using True c n
        by (subst bonus_line.simps, subst upto_rec1[OF True]) simp
    qed
  next
    case False
    then show ?thesis by (subst bonus_line.simps) simp
  qed
qed

lemma cell_value_existing:
  "0 \<le> r \<Longrightarrow> r < 15 \<Longrightarrow> 0 \<le> c \<Longrightarrow> c < 15 \<Longrightarrow>
   cell_value (get_cell b r c) = existing_value b (r, c)"
  by (simp add: get_cell_def row_exists_def existing_value_def has_tile_def split: option.splits)

lemma line_bonus_spec:
  assumes ib: "in_bounds pts" and ne: "pts \<noteq> []" and te: "targets_empty b pts"
    and sl: "card (row ` set pts) = 1 \<or> card (col ` set pts) = 1"
  shows "line_bonus b pts t =
    Some (t + (\<Sum>i\<leftarrow>[line_lo pts..line_hi pts]. existing_value b (line_cell pts i)))"
proof (cases "card (row ` set pts) = 1")
  case True
  let ?r = "row (hd pts)"
  let ?lo = "Min (col ` set pts)" and ?hi = "Max (col ` set pts)"
  have r: "0 \<le> ?r" "?r < 15" using in_bounds_hd[OF ib ne] by simp_all
  have new: "get_cell b ?r j = Some Null" if "list_ex (\<lambda>pt. col pt = j) pts" for j
  proof -
    from that obtain pt where pt: "pt \<in> set pts" "col pt = j" by (auto simp: list_ex_iff)
    then have "row pt = ?r" using card_one_hd(1)[OF True] by simp
    then have "b ?r j = None" using te pt by (auto simp: targets_empty_def list_all_iff)
    moreover have "0 \<le> j \<and> j < 15" using in_bounds_col[OF ib, of j] pt by auto
    ultimately show ?thesis using r by (simp add: get_cell_def row_exists_def)
  qed
  have "bonus_line (\<lambda>i. get_cell b ?r i) (\<lambda>i. list_ex (\<lambda>pt. col pt = i) pts) ?lo ?hi t =
      Some (t + (\<Sum>j\<leftarrow>[?lo..?hi]. cell_value (get_cell b ?r j)))"
    using r line_bounds[OF ib ne] new
    by (intro bonus_line_spec conjI impI get_cell_in_bounds[THEN conjunct1]
        get_cell_in_bounds[THEN conjunct2]) auto
  moreover have "map (\<lambda>j. cell_value (get_cell b ?r j)) [?lo..?hi] =
      map (\<lambda>i. existing_value b (line_cell pts i)) [?lo..?hi]"
    using r line_bounds[OF ib ne] True card_one_hd(2)[OF True]
    by (intro map_cong refl) (simp add: line_cell_def along_row_def cell_value_existing)
  ultimately show ?thesis using True ne
    by (simp add: line_bonus_def Let_def hd_sort_Min last_sort_Max line_lo_def line_hi_def
        line_index_def along_row_def)
next
  case False
  then have c1: "card (col ` set pts) = 1" using sl by simp
  let ?c = "col (hd pts)"
  let ?lo = "Min (row ` set pts)" and ?hi = "Max (row ` set pts)"
  have c: "0 \<le> ?c" "?c < 15" using in_bounds_hd[OF ib ne] by simp_all
  have new: "get_cell b j ?c = Some Null" if "list_ex (\<lambda>pt. row pt = j) pts" for j
  proof -
    from that obtain pt where pt: "pt \<in> set pts" "row pt = j" by (auto simp: list_ex_iff)
    then have "col pt = ?c" using card_one_hd(1)[OF c1] by simp
    then have "b j ?c = None" using te pt by (auto simp: targets_empty_def list_all_iff)
    moreover have "0 \<le> j \<and> j < 15" using in_bounds_row[OF ib, of j] pt by auto
    ultimately show ?thesis using c by (simp add: get_cell_def row_exists_def)
  qed
  have "bonus_line (\<lambda>i. get_cell b i ?c) (\<lambda>i. list_ex (\<lambda>pt. row pt = i) pts) ?lo ?hi t =
      Some (t + (\<Sum>j\<leftarrow>[?lo..?hi]. cell_value (get_cell b j ?c)))"
    using c line_bounds[OF ib ne] new
    by (intro bonus_line_spec conjI impI get_cell_in_bounds[THEN conjunct1]
        get_cell_in_bounds[THEN conjunct2]) auto
  moreover have "map (\<lambda>j. cell_value (get_cell b j ?c)) [?lo..?hi] =
      map (\<lambda>i. existing_value b (line_cell pts i)) [?lo..?hi]"
    using c line_bounds[OF ib ne] False card_one_hd(2)[OF c1]
    by (intro map_cong refl) (simp add: line_cell_def along_row_def cell_value_existing)
  ultimately show ?thesis using False ne
    by (simp add: line_bonus_def Let_def hd_sort_Min last_sort_Max line_lo_def line_hi_def
        line_index_def along_row_def)
qed

lemma calculateScore_spec:
  assumes "in_bounds pts" "pts \<noteq> []" "targets_empty b pts"
    "card (row ` set pts) = 1 \<or> card (col ` set pts) = 1"
  shows "calculateScore b pts = Some (spec_score b pts)"
  by (simp add: calculateScore_def score_tiles_spec[OF assms(1)] line_bonus_spec[OF assms]
      spec_score_def)

lemma valid_single_line:
  assumes "validateMove s pts = Some Valid"
  shows "pts \<noteq> []" "card (row ` set pts) = 1 \<or> card (col ` set pts) = 1"
proof -
  show ne: "pts \<noteq> []" using assms by (auto simp: validateMove_def)
  have "\<not> (card (row ` set pts) > 1 \<and> card (col ` set pts) > 1)"
    using assms ne by (auto simp: validateMove_def split: if_splits)
  then show "card (row ` set pts) = 1 \<or> card (col ` set pts) = 1"
    using card_image_pos[OF ne, of row] card_image_pos[OF ne, of col] by linarith
qed

lemma playMove_SuccessScore:
  assumes "fst (playMove s pid pts) = SuccessScore sc"
  shows "\<exists>k. check_turn s pid = Mover k \<and> validateMove s pts = Some Valid \<and>
     calculateScore (board s) pts = Some sc \<and>
     snd (playMove s pid pts) = commit_move s k pts sc (snd (placeTiles (board s) pts))"
  using assms
  by (auto simp: playMove_def split: turn_check.splits option.splits validation.splits
      prod.splits bool.splits)

lemma commit_move_score:
  "k < length (players s) \<Longrightarrow>
   score (players (commit_move s k pts sc b') ! k) = score (players s ! k) + sc"
  by (simp add: commit_move_def Let_def dealTiles_def)

text \<open>
  Claim C2. For placements on empty cells of the board, \<open>calculateScore\<close> returns the
  score of the specification whenever the placements lie in one row or one column, so
  for every move that passes validation; the score a successful \<open>playMove\<close> reports
  and adds to the mover's score is that number.
\<close>

theorem awarded_score_follows_spec:
  assumes "in_bounds pts" and "targets_empty (board s) pts"
  shows "(pts \<noteq> [] \<and> (card (row ` set pts) = 1 \<or> card (col ` set pts) = 1) \<longrightarrow>
      calculateScore (board s) pts = Some (spec_score (board s) pts)) \<and>
    (validateMove s pts = Some Valid \<longrightarrow>
      calculateScore (board s) pts = Some (spec_score (board s) pts)) \<and>
    (fst (playMove s pid pts) = SuccessScore sc \<longrightarrow>
      sc = spec_score (board s) pts \<and>
      (\<forall>k. check_turn s pid = Mover k \<longrightarrow>
         score (players (snd (playMove s pid pts)) ! k) =
           score (players s ! k) + spec_score (board s) pts))"
proof -
  have a: "calculateScore (board s) pts = Some (spec_score (board s) pts)"
    if "pts \<noteq> []" "card (row ` set pts) = 1 \<or> card (col ` set pts) = 1"
    using calculateScore_spec[OF assms(1) that(1) assms(2) that(2)] .
  have b: "calculateScore (board s) pts = Some (spec_score (board s) pts)"
    if "validateMove s pts = Some Valid"
    using a valid_single_line[OF that] by simp
  have c: "sc = spec_score (board s) pts \<and>
      (\<forall>k. check_turn s pid = Mover k \<longrightarrow>
         score (players (snd (playMove s pid pts)) ! k) =
           score (players s ! k) + spec_score (board s) pts)"
    if h: "fst (playMove s pid pts) = SuccessScore sc"
  proof -
    from playMove_SuccessScore[OF h] obtain k where
      k: "check_turn s pid = Mover k" "validateMove s pts = Some Valid"
        "calculateScore (board s) pts = Some sc"
        "snd (playMove s pid pts) = commit_move s k pts sc (snd (placeTiles (board s) pts))"
      by blast
    have sc: "sc = spec_score (board s) pts" using b[OF k(2)] k(3) by simp
    have "k < length (players s)" using check_turn_Mover[OF k(1)] by simp
    then show ?thesis using k(1,4) sc by (simp add: commit_move_score)
  qed
  show ?thesis using a b c by blast
qed

text \<open>
  Claim C2 in the example session after the opening: two tiles of value 1 around the
  two tiles of value 10 on the board score 22.
\<close>

theorem awarded_score_follows_spec_witness:
  "in_bounds extending_move \<and> targets_empty (board demo_game_opened) extending_move \<and>
   validateMove demo_game_opened extending_move = Some Valid \<and>
   calculateScore (board demo_game_opened) extending_move = Some 22 \<and>
   spec_score (board demo_game_opened) extending_move = 22 \<and>
   fst (playMove demo_game_opened ''p2'' extending_move) = SuccessScore 22 \<and>
   check_turn demo_game_opened ''p2'' = Mover 1 \<and>
   score (players (snd (playMove demo_game_opened ''p2'' extending_move)) ! 1) = 22"
proof -
  have h: "in_bounds extending_move" "targets_empty (board demo_game_opened) extending_move"
    by code_simp+
  have v: "validateMove demo_game_opened extending_move = Some Valid"
    "fst (playMove demo_game_opened ''p2'' extending_move) = SuccessScore 22"
    "check_turn demo_game_opened ''p2'' = Mover 1"
    "score (players demo_game_opened ! 1) = 0"
    by code_simp+
  from awarded_score_follows_spec[OF h, of "''p2''" 22] v h show ?thesis by simp
qed

section \<open>Exchanging tiles\<close>

text \<open>Whatever the draws, \<open>shuffle\<close> returns a permutation of its argument.\<close>

lemma shuffle_loop_mset:
  "i < length xs \<Longrightarrow> mset (shuffle_loop pick i xs) = mset xs"
proof (induction i arbitrary: xs)
  case 0
  then show ?case by simp
next
  case (Suc k)
  let ?j = "pick (Suc k) mod (Suc k + 1)"
  let ?xs = "xs[Suc k := xs ! ?j, ?j := xs ! Suc k]"
  have "?j < Suc k + 1" by (rule mod_less_divisor) simp
  then have j: "?j < length xs" using Suc.prems by linarith
  have "mset ?xs = mset xs" using Suc.prems j by (simp add: mset_swap)
  moreover have "mset (shuffle_loop pick k ?xs) = mset ?xs" using Suc.prems by (intro Suc.IH) simp
  ultimately show ?case by (simp add: Let_def)
qed

lemma shuffle_mset: "mset (shuffle pick xs) = mset xs"
  by (cases xs) (simp_all add: shuffle_def shuffle_loop_mset)

lemma shuffle_length: "length (shuffle pick xs) = length xs"
  using shuffle_mset[of pick xs] by (metis size_mset)

text \<open>
  The parts of an exchange by the player at index \<open>k\<close>: the rack tiles named by the
  request, the rest of the rack, the bag after the return and the shuffle, and the tiles
  then popped off its end.
\<close>

definition exchanged :: "game \<Rightarrow> nat \<Rightarrow> string list \<Rightarrow> tile list" where
  "exchanged s k tileIds = filter (\<lambda>t. tile_id t \<in> set tileIds) (tiles (players s ! k))"

definition kept :: "game \<Rightarrow> nat \<Rightarrow> string list \<Rightarrow> tile list" where
  "kept s k tileIds = filter (\<lambda>t. tile_id t \<notin> set tileIds) (tiles (players s ! k))"

definition shuffled_bag :: "game \<Rightarrow> (nat \<Rightarrow> nat) \<Rightarrow> nat \<Rightarrow> string list \<Rightarrow> tile list" where
  "shuffled_bag s pick k tileIds = shuffle pick (tileBag s @ exchanged s k tileIds)"

definition drawn :: "game \<Rightarrow> (nat \<Rightarrow> nat) \<Rightarrow> nat \<Rightarrow> string list \<Rightarrow> tile list" where
  "drawn s pick k tileIds = rev (drop (length (tileBag s)) (shuffled_bag s pick k tileIds))"

text \<open>
  Claim C5, as the code has it. Under its preconditions \<open>exchangeTiles\<close> succeeds. The
  exchanged tiles are appended to the bag, then the bag is shuffled, then the
  replacements are popped off the end of the shuffled bag, as many as were exchanged.
  The new rack is the kept tiles followed by the drawn ones; the drawn tiles and the new
  bag together are the old bag and the returned tiles. So every drawn tile comes from
  the old bag or is one of the tiles just returned.
\<close>

theorem exchange_returns_shuffles_draws:
  assumes "check_turn s pid = Mover k" and "length tileIds \<le> length (tileBag s)"
  shows "fst (exchangeTiles s pick pid tileIds) = Success \<and>
    tiles (players (snd (exchangeTiles s pick pid tileIds)) ! k) =
      kept s k tileIds @ drawn s pick k tileIds \<and>
    tileBag (snd (exchangeTiles s pick pid tileIds)) =
      take (length (tileBag s)) (shuffled_bag s pick k tileIds) \<and>
    mset (shuffled_bag s pick k tileIds) = mset (tileBag s) + mset (exchanged s k tileIds) \<and>
    length (drawn s pick k tileIds) = length (exchanged s k tileIds) \<and>
    set (drawn s pick k tileIds) \<subseteq> set (tileBag s) \<union> set (exchanged s k tileIds)"
proof -
  have k: "k < length (players s)" using check_turn_Mover[OF assms(1)] by simp
  let ?sh = "shuffled_bag s pick k tileIds"
  have len: "length ?sh = length (tileBag s) + length (exchanged s k tileIds)"
    by (simp add: shuffled_bag_def shuffle_length)
  have ms: "mset ?sh = mset (tileBag s) + mset (exchanged s k tileIds)"
    by (simp add: shuffled_bag_def shuffle_mset)
  have sub: "set (drawn s pick k tileIds) \<subseteq> set (tileBag s) \<union> set (exchanged s k tileIds)"
  proof -
    have "set (drawn s pick k tileIds) \<subseteq> set ?sh" by (auto simp: drawn_def dest: in_set_dropD)
    also have "set ?sh = set (tileBag s) \<union> set (exchanged s k tileIds)"
      using ms by (metis mset_append set_append set_mset_mset)
    finally show ?thesis .
  qed
  show ?thesis using assms k len ms sub
    by (simp add: exchangeTiles_def Let_def dealTiles_rack dealTiles_bag drawn_def kept_def
        exchanged_def[symmetric] shuffled_bag_def[symmetric])
qed

text \<open>Claim C5 in the example session, for an exchange of two tiles.\<close>

theorem exchange_returns_shuffles_draws_witness:
  "check_turn demo_game ''p1'' = Mover 0 \<and> length [''E-0-0.5'', ''E-3-0.5''] \<le> length (tileBag demo_game) \<and>
   fst (exchangeTiles demo_game (\<lambda>i. i + 1) ''p1'' [''E-0-0.5'', ''E-3-0.5'']) = Success \<and>
   map tile_id (exchanged demo_game 0 [''E-0-0.5'', ''E-3-0.5'']) = [''E-0-0.5'', ''E-3-0.5''] \<and>
   map tile_id (drawn demo_game (\<lambda>i. i + 1) 0 [''E-0-0.5'', ''E-3-0.5'']) = [''Q-0-0.5'', ''E-3-0.5''] \<and>
   tiles (players (snd (exchangeTiles demo_game (\<lambda>i. i + 1) ''p1'' [''E-0-0.5'', ''E-3-0.5''])) ! 0) =
     kept demo_game 0 [''E-0-0.5'', ''E-3-0.5''] @ drawn demo_game (\<lambda>i. i + 1) 0 [''E-0-0.5'', ''E-3-0.5'']"
proof -
  have h: "check_turn demo_game ''p1'' = Mover 0"
    "length [''E-0-0.5'', ''E-3-0.5''] \<le> length (tileBag demo_game)"
    by code_simp+
  have e: "map tile_id (exchanged demo_game 0 [''E-0-0.5'', ''E-3-0.5'']) = [''E-0-0.5'', ''E-3-0.5'']"
    "map tile_id (drawn demo_game (\<lambda>i. i + 1) 0 [''E-0-0.5'', ''E-3-0.5'']) = [''Q-0-0.5'', ''E-3-0.5'']"
    by code_simp+
  from exchange_returns_shuffles_draws[OF h, of "\<lambda>i. i + 1"] h e show ?thesis by simp
qed

text \<open>
  A session after its constructor, two joins and the start, with a shuffle that left
  the bag in the order it was filled.
\<close>

definition started_game :: game where
  "started_game = foldl step (new_game ''room'' demo_rnd (\<lambda>i. i))
     [AddPlayer ''p1'' ''Ann'', AddPlayer ''p2'' ''Bob'', StartGame]"

text \<open>
  Claim C5 as written says that the drawn replacements exclude every returned tile for
  every outcome of the shuffle. In the started session the first player exchanges the
  tile \<open>Z-0-0.5\<close>; when the shuffle leaves the bag in place, the returned tile is the
  last of the bag, and it is the tile drawn.
\<close>

theorem exchange_can_redraw:
  "(let s = started_game;
        s' = snd (exchangeTiles s (\<lambda>i. i) ''p1'' [''Z-0-0.5''])
    in check_turn s ''p1'' = Mover 0 \<and>
       length [''Z-0-0.5''] \<le> length (tileBag s) \<and>
       map tile_id (exchanged s 0 [''Z-0-0.5'']) = [''Z-0-0.5''] \<and>
       map tile_id (drawn s (\<lambda>i. i) 0 [''Z-0-0.5'']) = [''Z-0-0.5''] \<and>
       map tile_id (tiles (players s ! 0)) =
         [''_-1-0.5'', ''_-0-0.5'', ''Z-0-0.5'', ''Y-1-0.5'', ''Y-0-0.5'', ''X-0-0.5'', ''W-1-0.5''] \<and>
       map tile_id (tiles (players s' ! 0)) =
         [''_-1-0.5'', ''_-0-0.5'', ''Y-1-0.5'', ''Y-0-0.5'', ''X-0-0.5'', ''W-1-0.5'', ''Z-0-0.5''])"
  by code_simp

section \<open>Tile conservation\<close>

text \<open>
  The tiles of a session: those in the bag, in the racks and on the cells of the board.
  \<open>canonical_tiles\<close> is the distribution of \<open>TILE_DISTRIBUTION\<close> with the values of
  \<open>TILE_VALUES\<close>. A session is \<open>conserved\<close> when the letters and values of its tiles
  are that distribution, bag, racks and board hold 100 tiles together, and no id occurs
  twice.
\<close>

definition board_cells :: "(int \<times> int) list" where
  "board_cells = List.product [0..14] [0..14]"

definition cell_tiles :: "board \<Rightarrow> int \<times> int \<Rightarrow> tile list" where
  "cell_tiles b rc = (case rc of (r, c) \<Rightarrow> (case b r c of Some t \<Rightarrow> [t] | None \<Rightarrow> []))"

definition board_tiles :: "board \<Rightarrow> tile list" where
  "board_tiles b = concat (map (cell_tiles b) board_cells)"

definition all_tiles :: "game \<Rightarrow> tile list" where
  "all_tiles s = tileBag s @ concat (map tiles (players s)) @ board_tiles (board s)"







text \<open>The tiles of all racks, as a multiset.\<close>

definition racks :: "player list \<Rightarrow> tile multiset" where
  "racks ps = (\<Sum>p\<leftarrow>ps. mset (tiles p))"

lemma racks_simps [simp]:
  "racks [] = {#}" "racks (p # ps) = mset (tiles p) + racks ps" "racks (ps @ qs) = racks ps + racks qs"
  by (simp_all add: racks_def)








lemma all_tiles_frame [simp]:
  "all_tiles (s\<lparr>gameStarted := g\<rparr>) = all_tiles s"
  "all_tiles (s\<lparr>firstMoveMade := f\<rparr>) = all_tiles s"
  "all_tiles (s\<lparr>currentPlayerIndex := i\<rparr>) = all_tiles s"
  "all_tiles (s\<lparr>hostId := h\<rparr>) = all_tiles s"
  "all_tiles (nextTurn s) = all_tiles s"
  by (simp_all add: all_tiles_def nextTurn_def)














































end
